theory Spec2Isabelle
  imports
    Main
    "HOL-Library.Multiset"
    "HOL-Library.Product_Lexorder"
    "HOL-Library.List_Lexorder"
    "HOL-Library.Monad_Syntax"
begin

text \<open>
  The three text functions of \<open>app.py\<close>: \<open>_subscript_label\<close> (the label formatter),
  \<open>build_dependency_dot\<close> (the dependency extractor) and \<open>_reorder_statespace_dot\<close>
  (the state-graph canonicalizer), with the primitives of \<open>str\<close> and \<open>re\<close> they call, and
  the properties the specification states about them.
\<close>

section \<open>Python strings\<close>

text \<open>
  A Python \<open>str\<close> is a sequence of Unicode code points. The subscript glyphs of
  \<open>_subscript_label\<close> (U+2080 .. U+2089) and the character classes of the \<open>re\<close> module
  (\<open>\s\<close>, \<open>\d\<close>, \<open>\w\<close> on \<open>str\<close> patterns are the Unicode classes) lie outside the
  8-bit \<open>char\<close> of HOL, so a string is modelled as the list of its code points.
\<close>

type_synonym pystr = "nat list"

definition py :: "string \<Rightarrow> pystr" where
  \<comment> \<open>an ASCII literal as a Python string\<close>
  "py s = map of_char s"

datatype error = ValueError | IndexError

subsection \<open>Character classes\<close>

definition isspace :: "nat \<Rightarrow> bool" where
  \<comment> \<open>\<open>Py_UNICODE_ISSPACE\<close>: what \<open>str.strip()\<close> removes and what \<open>\s\<close> matches\<close>
  "isspace c \<longleftrightarrow>
     (9 \<le> c \<and> c \<le> 13) \<or> (28 \<le> c \<and> c \<le> 32) \<or> c = 133 \<or> c = 160 \<or> c = 5760 \<or>
     (8192 \<le> c \<and> c \<le> 8202) \<or> c = 8232 \<or> c = 8233 \<or> c = 8239 \<or> c = 8287 \<or> c = 12288"

definition is_linebreak :: "nat \<Rightarrow> bool" where
  \<comment> \<open>the line boundaries of \<open>str.splitlines()\<close>: LF, VT, FF, CR, FS, GS, RS, NEL, LS, PS\<close>
  "is_linebreak c \<longleftrightarrow>
     c = 10 \<or> c = 11 \<or> c = 12 \<or> c = 13 \<or> c = 28 \<or> c = 29 \<or> c = 30 \<or> c = 133 \<or>
     c = 8232 \<or> c = 8233"

subsection \<open>\<open>str.splitlines\<close>, \<open>str.strip\<close>, \<open>"\n".join\<close>\<close>

definition after_break :: "pystr \<Rightarrow> pystr" where
  \<comment> \<open>skip one line boundary at the head; CR LF counts as one boundary\<close>
  "after_break s =
     (case s of
        [] \<Rightarrow> []
      | c # r \<Rightarrow> (case r of
                   [] \<Rightarrow> []
                 | d # r' \<Rightarrow> if c = 13 \<and> d = 10 then r' else r))"

function splitlines :: "pystr \<Rightarrow> pystr list" where
  "splitlines s =
     (if s = [] then []
      else takeWhile (\<lambda>c. \<not> is_linebreak c) s
           # splitlines (after_break (dropWhile (\<lambda>c. \<not> is_linebreak c) s)))"
  by pat_completeness auto
termination
proof (relation "measure length")
  fix s :: pystr
  assume "s \<noteq> []"
  have "length (after_break (dropWhile (\<lambda>c. \<not> is_linebreak c) s))
          \<le> length (dropWhile (\<lambda>c. \<not> is_linebreak c) s) - 1"
    by (simp add: after_break_def split: list.splits)
  moreover have "length (dropWhile (\<lambda>c. \<not> is_linebreak c) s) \<le> length s"
    by (rule length_dropWhile_le)
  ultimately show "(after_break (dropWhile (\<lambda>c. \<not> is_linebreak c) s), s) \<in> measure length"
    using \<open>s \<noteq> []\<close> by (cases s) auto
qed simp

definition strip :: "pystr \<Rightarrow> pystr" where
  "strip s = rev (dropWhile isspace (rev (dropWhile isspace s)))"

fun join_nl :: "pystr list \<Rightarrow> pystr" where
  "join_nl [] = []"
| "join_nl [l] = l"
| "join_nl (l # m # ls) = l @ 10 # join_nl (m # ls)"

subsection \<open>\<open>int(bits, 2)\<close> and \<open>sorted(xs, key=f)\<close>\<close>

fun int_digits2 :: "nat \<Rightarrow> pystr \<Rightarrow> error + nat" where
  "int_digits2 acc [] = Inr acc"
| "int_digits2 acc (c # s) =
     (if c = 48 then int_digits2 (2 * acc) s
      else if c = 49 then int_digits2 (2 * acc + 1) s
      else Inl ValueError)"

definition int_base2 :: "pystr \<Rightarrow> error + nat" where
  \<comment> \<open>\<open>int(s, 2)\<close> on a string of binary digits; the empty string is a \<open>ValueError\<close>.
      (Python also accepts a sign, a \<open>0b\<close> prefix, underscores and surrounding blanks;
      the caller passes none of them, see \<open>key_for_line_total\<close>.)\<close>
  "int_base2 s = (if s = [] then Inl ValueError else int_digits2 0 s)"

fun decorate :: "('a \<Rightarrow> error + 'k) \<Rightarrow> 'a list \<Rightarrow> error + ('k \<times> 'a) list" where
  "decorate f [] = Inr []"
| "decorate f (x # xs) =
     (case f x of
        Inl e \<Rightarrow> Inl e
      | Inr k \<Rightarrow> (case decorate f xs of Inl e \<Rightarrow> Inl e | Inr kxs \<Rightarrow> Inr ((k, x) # kxs)))"

definition sorted_key :: "('a \<Rightarrow> error + 'k::linorder) \<Rightarrow> 'a list \<Rightarrow> error + 'a list" where
  \<comment> \<open>\<open>sorted(xs, key=f)\<close>: the keys are computed first (an exception of \<open>f\<close> escapes),
      then the list is sorted stably by key\<close>
  "sorted_key f xs =
     (case decorate f xs of Inl e \<Rightarrow> Inl e | Inr kxs \<Rightarrow> Inr (map snd (sort_key fst kxs)))"

section \<open>Unicode classes of the \<open>re\<close> module\<close>

text \<open>
  On a \<open>str\<close> pattern \<open>\d\<close> matches every Unicode decimal digit and \<open>\w\<close> every
  alphanumeric character and the underscore; \<open>\b\<close> is the boundary between a \<open>\w\<close> and
  a non-\<open>\w\<close> character (or an end of the subject). The tables are those of the Unicode
  Character Database 14.0.0 (CPython 3.11), as ranges of code points.
\<close>

fun in_ranges :: "nat \<Rightarrow> (nat \<times> nat) list \<Rightarrow> bool" where
  "in_ranges c [] = False"
| "in_ranges c ((lo, hi) # rs) = (if lo \<le> c \<and> c \<le> hi then True else in_ranges c rs)"

definition decimal_ranges :: "(nat \<times> nat) list" where
  \<comment> \<open>the code points with \<open>str.isdecimal\<close> (Unicode category Nd)\<close>
  "decimal_ranges =
    [(48, 57), (1632, 1641), (1776, 1785), (1984, 1993), (2406, 2415), (2534, 2543),
     (2662, 2671), (2790, 2799), (2918, 2927), (3046, 3055), (3174, 3183), (3302, 3311),
     (3430, 3439), (3558, 3567), (3664, 3673), (3792, 3801), (3872, 3881), (4160, 4169),
     (4240, 4249), (6112, 6121), (6160, 6169), (6470, 6479), (6608, 6617), (6784, 6793),
     (6800, 6809), (6992, 7001), (7088, 7097), (7232, 7241), (7248, 7257), (42528, 42537),
     (43216, 43225), (43264, 43273), (43472, 43481), (43504, 43513), (43600, 43609),
     (44016, 44025), (65296, 65305), (66720, 66729), (68912, 68921), (69734, 69743),
     (69872, 69881), (69942, 69951), (70096, 70105), (70384, 70393), (70736, 70745),
     (70864, 70873), (71248, 71257), (71360, 71369), (71472, 71481), (71904, 71913),
     (72016, 72025), (72784, 72793), (73040, 73049), (73120, 73129), (92768, 92777),
     (92864, 92873), (93008, 93017), (120782, 120831), (123200, 123209), (123632, 123641),
     (125264, 125273), (130032, 130041)]"

definition alpha_ranges :: "(nat \<times> nat) list" where
  \<comment> \<open>the code points with \<open>str.isalpha\<close> (Unicode categories Lu, Ll, Lt, Lm, Lo)\<close>
  "alpha_ranges =
    [(65, 90), (97, 122), (170, 170), (181, 181), (186, 186), (192, 214), (216, 246),
     (248, 705), (710, 721), (736, 740), (748, 748), (750, 750), (880, 884), (886, 887),
     (890, 893), (895, 895), (902, 902), (904, 906), (908, 908), (910, 929), (931, 1013),
     (1015, 1153), (1162, 1327), (1329, 1366), (1369, 1369), (1376, 1416), (1488, 1514),
     (1519, 1522), (1568, 1610), (1646, 1647), (1649, 1747), (1749, 1749), (1765, 1766),
     (1774, 1775), (1786, 1788), (1791, 1791), (1808, 1808), (1810, 1839), (1869, 1957),
     (1969, 1969), (1994, 2026), (2036, 2037), (2042, 2042), (2048, 2069), (2074, 2074),
     (2084, 2084), (2088, 2088), (2112, 2136), (2144, 2154), (2160, 2183), (2185, 2190),
     (2208, 2249), (2308, 2361), (2365, 2365), (2384, 2384), (2392, 2401), (2417, 2432),
     (2437, 2444), (2447, 2448), (2451, 2472), (2474, 2480), (2482, 2482), (2486, 2489),
     (2493, 2493), (2510, 2510), (2524, 2525), (2527, 2529), (2544, 2545), (2556, 2556),
     (2565, 2570), (2575, 2576), (2579, 2600), (2602, 2608), (2610, 2611), (2613, 2614),
     (2616, 2617), (2649, 2652), (2654, 2654), (2674, 2676), (2693, 2701), (2703, 2705),
     (2707, 2728), (2730, 2736), (2738, 2739), (2741, 2745), (2749, 2749), (2768, 2768),
     (2784, 2785), (2809, 2809), (2821, 2828), (2831, 2832), (2835, 2856), (2858, 2864),
     (2866, 2867), (2869, 2873), (2877, 2877), (2908, 2909), (2911, 2913), (2929, 2929),
     (2947, 2947), (2949, 2954), (2958, 2960), (2962, 2965), (2969, 2970), (2972, 2972),
     (2974, 2975), (2979, 2980), (2984, 2986), (2990, 3001), (3024, 3024), (3077, 3084),
     (3086, 3088), (3090, 3112), (3114, 3129), (3133, 3133), (3160, 3162), (3165, 3165),
     (3168, 3169), (3200, 3200), (3205, 3212), (3214, 3216), (3218, 3240), (3242, 3251),
     (3253, 3257), (3261, 3261), (3293, 3294), (3296, 3297), (3313, 3314), (3332, 3340),
     (3342, 3344), (3346, 3386), (3389, 3389), (3406, 3406), (3412, 3414), (3423, 3425),
     (3450, 3455), (3461, 3478), (3482, 3505), (3507, 3515), (3517, 3517), (3520, 3526),
     (3585, 3632), (3634, 3635), (3648, 3654), (3713, 3714), (3716, 3716), (3718, 3722),
     (3724, 3747), (3749, 3749), (3751, 3760), (3762, 3763), (3773, 3773), (3776, 3780),
     (3782, 3782), (3804, 3807), (3840, 3840), (3904, 3911), (3913, 3948), (3976, 3980),
     (4096, 4138), (4159, 4159), (4176, 4181), (4186, 4189), (4193, 4193), (4197, 4198),
     (4206, 4208), (4213, 4225), (4238, 4238), (4256, 4293), (4295, 4295), (4301, 4301),
     (4304, 4346), (4348, 4680), (4682, 4685), (4688, 4694), (4696, 4696), (4698, 4701),
     (4704, 4744), (4746, 4749), (4752, 4784), (4786, 4789), (4792, 4798), (4800, 4800),
     (4802, 4805), (4808, 4822), (4824, 4880), (4882, 4885), (4888, 4954), (4992, 5007),
     (5024, 5109), (5112, 5117), (5121, 5740), (5743, 5759), (5761, 5786), (5792, 5866),
     (5873, 5880), (5888, 5905), (5919, 5937), (5952, 5969), (5984, 5996), (5998, 6000),
     (6016, 6067), (6103, 6103), (6108, 6108), (6176, 6264), (6272, 6276), (6279, 6312),
     (6314, 6314), (6320, 6389), (6400, 6430), (6480, 6509), (6512, 6516), (6528, 6571),
     (6576, 6601), (6656, 6678), (6688, 6740), (6823, 6823), (6917, 6963), (6981, 6988),
     (7043, 7072), (7086, 7087), (7098, 7141), (7168, 7203), (7245, 7247), (7258, 7293),
     (7296, 7304), (7312, 7354), (7357, 7359), (7401, 7404), (7406, 7411), (7413, 7414),
     (7418, 7418), (7424, 7615), (7680, 7957), (7960, 7965), (7968, 8005), (8008, 8013),
     (8016, 8023), (8025, 8025), (8027, 8027), (8029, 8029), (8031, 8061), (8064, 8116),
     (8118, 8124), (8126, 8126), (8130, 8132), (8134, 8140), (8144, 8147), (8150, 8155),
     (8160, 8172), (8178, 8180), (8182, 8188), (8305, 8305), (8319, 8319), (8336, 8348),
     (8450, 8450), (8455, 8455), (8458, 8467), (8469, 8469), (8473, 8477), (8484, 8484),
     (8486, 8486), (8488, 8488), (8490, 8493), (8495, 8505), (8508, 8511), (8517, 8521),
     (8526, 8526), (8579, 8580), (11264, 11492), (11499, 11502), (11506, 11507),
     (11520, 11557), (11559, 11559), (11565, 11565), (11568, 11623), (11631, 11631),
     (11648, 11670), (11680, 11686), (11688, 11694), (11696, 11702), (11704, 11710),
     (11712, 11718), (11720, 11726), (11728, 11734), (11736, 11742), (11823, 11823),
     (12293, 12294), (12337, 12341), (12347, 12348), (12353, 12438), (12445, 12447),
     (12449, 12538), (12540, 12543), (12549, 12591), (12593, 12686), (12704, 12735),
     (12784, 12799), (13312, 19903), (19968, 42124), (42192, 42237), (42240, 42508),
     (42512, 42527), (42538, 42539), (42560, 42606), (42623, 42653), (42656, 42725),
     (42775, 42783), (42786, 42888), (42891, 42954), (42960, 42961), (42963, 42963),
     (42965, 42969), (42994, 43009), (43011, 43013), (43015, 43018), (43020, 43042),
     (43072, 43123), (43138, 43187), (43250, 43255), (43259, 43259), (43261, 43262),
     (43274, 43301), (43312, 43334), (43360, 43388), (43396, 43442), (43471, 43471),
     (43488, 43492), (43494, 43503), (43514, 43518), (43520, 43560), (43584, 43586),
     (43588, 43595), (43616, 43638), (43642, 43642), (43646, 43695), (43697, 43697),
     (43701, 43702), (43705, 43709), (43712, 43712), (43714, 43714), (43739, 43741),
     (43744, 43754), (43762, 43764), (43777, 43782), (43785, 43790), (43793, 43798),
     (43808, 43814), (43816, 43822), (43824, 43866), (43868, 43881), (43888, 44002),
     (44032, 55203), (55216, 55238), (55243, 55291), (63744, 64109), (64112, 64217),
     (64256, 64262), (64275, 64279), (64285, 64285), (64287, 64296), (64298, 64310),
     (64312, 64316), (64318, 64318), (64320, 64321), (64323, 64324), (64326, 64433),
     (64467, 64829), (64848, 64911), (64914, 64967), (65008, 65019), (65136, 65140),
     (65142, 65276), (65313, 65338), (65345, 65370), (65382, 65470), (65474, 65479),
     (65482, 65487), (65490, 65495), (65498, 65500), (65536, 65547), (65549, 65574),
     (65576, 65594), (65596, 65597), (65599, 65613), (65616, 65629), (65664, 65786),
     (66176, 66204), (66208, 66256), (66304, 66335), (66349, 66368), (66370, 66377),
     (66384, 66421), (66432, 66461), (66464, 66499), (66504, 66511), (66560, 66717),
     (66736, 66771), (66776, 66811), (66816, 66855), (66864, 66915), (66928, 66938),
     (66940, 66954), (66956, 66962), (66964, 66965), (66967, 66977), (66979, 66993),
     (66995, 67001), (67003, 67004), (67072, 67382), (67392, 67413), (67424, 67431),
     (67456, 67461), (67463, 67504), (67506, 67514), (67584, 67589), (67592, 67592),
     (67594, 67637), (67639, 67640), (67644, 67644), (67647, 67669), (67680, 67702),
     (67712, 67742), (67808, 67826), (67828, 67829), (67840, 67861), (67872, 67897),
     (67968, 68023), (68030, 68031), (68096, 68096), (68112, 68115), (68117, 68119),
     (68121, 68149), (68192, 68220), (68224, 68252), (68288, 68295), (68297, 68324),
     (68352, 68405), (68416, 68437), (68448, 68466), (68480, 68497), (68608, 68680),
     (68736, 68786), (68800, 68850), (68864, 68899), (69248, 69289), (69296, 69297),
     (69376, 69404), (69415, 69415), (69424, 69445), (69488, 69505), (69552, 69572),
     (69600, 69622), (69635, 69687), (69745, 69746), (69749, 69749), (69763, 69807),
     (69840, 69864), (69891, 69926), (69956, 69956), (69959, 69959), (69968, 70002),
     (70006, 70006), (70019, 70066), (70081, 70084), (70106, 70106), (70108, 70108),
     (70144, 70161), (70163, 70187), (70272, 70278), (70280, 70280), (70282, 70285),
     (70287, 70301), (70303, 70312), (70320, 70366), (70405, 70412), (70415, 70416),
     (70419, 70440), (70442, 70448), (70450, 70451), (70453, 70457), (70461, 70461),
     (70480, 70480), (70493, 70497), (70656, 70708), (70727, 70730), (70751, 70753),
     (70784, 70831), (70852, 70853), (70855, 70855), (71040, 71086), (71128, 71131),
     (71168, 71215), (71236, 71236), (71296, 71338), (71352, 71352), (71424, 71450),
     (71488, 71494), (71680, 71723), (71840, 71903), (71935, 71942), (71945, 71945),
     (71948, 71955), (71957, 71958), (71960, 71983), (71999, 71999), (72001, 72001),
     (72096, 72103), (72106, 72144), (72161, 72161), (72163, 72163), (72192, 72192),
     (72203, 72242), (72250, 72250), (72272, 72272), (72284, 72329), (72349, 72349),
     (72368, 72440), (72704, 72712), (72714, 72750), (72768, 72768), (72818, 72847),
     (72960, 72966), (72968, 72969), (72971, 73008), (73030, 73030), (73056, 73061),
     (73063, 73064), (73066, 73097), (73112, 73112), (73440, 73458), (73648, 73648),
     (73728, 74649), (74880, 75075), (77712, 77808), (77824, 78894), (82944, 83526),
     (92160, 92728), (92736, 92766), (92784, 92862), (92880, 92909), (92928, 92975),
     (92992, 92995), (93027, 93047), (93053, 93071), (93760, 93823), (93952, 94026),
     (94032, 94032), (94099, 94111), (94176, 94177), (94179, 94179), (94208, 100343),
     (100352, 101589), (101632, 101640), (110576, 110579), (110581, 110587), (110589, 110590),
     (110592, 110882), (110928, 110930), (110948, 110951), (110960, 111355), (113664, 113770),
     (113776, 113788), (113792, 113800), (113808, 113817), (119808, 119892), (119894, 119964),
     (119966, 119967), (119970, 119970), (119973, 119974), (119977, 119980), (119982, 119993),
     (119995, 119995), (119997, 120003), (120005, 120069), (120071, 120074), (120077, 120084),
     (120086, 120092), (120094, 120121), (120123, 120126), (120128, 120132), (120134, 120134),
     (120138, 120144), (120146, 120485), (120488, 120512), (120514, 120538), (120540, 120570),
     (120572, 120596), (120598, 120628), (120630, 120654), (120656, 120686), (120688, 120712),
     (120714, 120744), (120746, 120770), (120772, 120779), (122624, 122654), (123136, 123180),
     (123191, 123197), (123214, 123214), (123536, 123565), (123584, 123627), (124896, 124902),
     (124904, 124907), (124909, 124910), (124912, 124926), (124928, 125124), (125184, 125251),
     (125259, 125259), (126464, 126467), (126469, 126495), (126497, 126498), (126500, 126500),
     (126503, 126503), (126505, 126514), (126516, 126519), (126521, 126521), (126523, 126523),
     (126530, 126530), (126535, 126535), (126537, 126537), (126539, 126539), (126541, 126543),
     (126545, 126546), (126548, 126548), (126551, 126551), (126553, 126553), (126555, 126555),
     (126557, 126557), (126559, 126559), (126561, 126562), (126564, 126564), (126567, 126570),
     (126572, 126578), (126580, 126583), (126585, 126588), (126590, 126590), (126592, 126601),
     (126603, 126619), (126625, 126627), (126629, 126633), (126635, 126651), (131072, 173791),
     (173824, 177976), (177984, 178205), (178208, 183969), (183984, 191456), (194560, 195101),
     (196608, 201546)]"

definition numeric_ranges :: "(nat \<times> nat) list" where
  \<comment> \<open>the code points with \<open>str.isdigit\<close> or \<open>str.isnumeric\<close> that are not decimal digits\<close>
  "numeric_ranges =
    [(178, 179), (185, 185), (188, 190), (2548, 2553), (2930, 2935), (3056, 3058),
     (3192, 3198), (3416, 3422), (3440, 3448), (3882, 3891), (4969, 4988), (5870, 5872),
     (6128, 6137), (6618, 6618), (8304, 8304), (8308, 8313), (8320, 8329), (8528, 8578),
     (8581, 8585), (9312, 9371), (9450, 9471), (10102, 10131), (11517, 11517), (12295, 12295),
     (12321, 12329), (12344, 12346), (12690, 12693), (12832, 12841), (12872, 12879),
     (12881, 12895), (12928, 12937), (12977, 12991), (13317, 13317), (13443, 13443),
     (14378, 14378), (15181, 15181), (19968, 19968), (19971, 19971), (19975, 19975),
     (19977, 19977), (20061, 20061), (20108, 20108), (20116, 20116), (20118, 20118),
     (20159, 20160), (20191, 20191), (20200, 20200), (20237, 20237), (20336, 20336),
     (20740, 20740), (20806, 20806), (20841, 20841), (20843, 20843), (20845, 20845),
     (21313, 21313), (21315, 21317), (21324, 21324), (21441, 21444), (22235, 22235),
     (22769, 22769), (22777, 22777), (24186, 24186), (24318, 24319), (24332, 24334),
     (24336, 24336), (25342, 25342), (25420, 25420), (26578, 26578), (28422, 28422),
     (29590, 29590), (30334, 30334), (32902, 32902), (33836, 33836), (36014, 36014),
     (36019, 36019), (36144, 36144), (38433, 38433), (38470, 38470), (38476, 38476),
     (38520, 38520), (38646, 38646), (42726, 42735), (43056, 43061), (63851, 63851),
     (63859, 63859), (63864, 63864), (63922, 63922), (63953, 63953), (63955, 63955),
     (63997, 63997), (65799, 65843), (65856, 65912), (65930, 65931), (66273, 66299),
     (66336, 66339), (66369, 66369), (66378, 66378), (66513, 66517), (67672, 67679),
     (67705, 67711), (67751, 67759), (67835, 67839), (67862, 67867), (68028, 68029),
     (68032, 68047), (68050, 68095), (68160, 68168), (68221, 68222), (68253, 68255),
     (68331, 68335), (68440, 68447), (68472, 68479), (68521, 68527), (68858, 68863),
     (69216, 69246), (69405, 69414), (69457, 69460), (69573, 69579), (69714, 69733),
     (70113, 70132), (71482, 71483), (71914, 71922), (72794, 72812), (73664, 73684),
     (74752, 74862), (93019, 93025), (93824, 93846), (119520, 119539), (119648, 119672),
     (125127, 125135), (126065, 126123), (126125, 126127), (126129, 126132), (126209, 126253),
     (126255, 126269), (127232, 127244), (131073, 131073), (131172, 131172), (131298, 131298),
     (131361, 131361), (133418, 133418), (133507, 133507), (133516, 133516), (133532, 133532),
     (133866, 133866), (133885, 133885), (133913, 133913), (140176, 140176), (141720, 141720),
     (146203, 146203), (156269, 156269), (194704, 194704)]"

definition is_decimal :: "nat \<Rightarrow> bool" where
  \<comment> \<open>\<open>Py_UNICODE_ISDECIMAL\<close>: the class \<open>\d\<close>\<close>
  "is_decimal c = in_ranges c decimal_ranges"

definition is_alnum :: "nat \<Rightarrow> bool" where
  \<comment> \<open>\<open>Py_UNICODE_ISALNUM\<close>: alphabetic, decimal, digit or numeric\<close>
  "is_alnum c \<longleftrightarrow> in_ranges c alpha_ranges \<or> is_decimal c \<or> in_ranges c numeric_ranges"

definition is_word :: "nat \<Rightarrow> bool" where
  \<comment> \<open>the class \<open>\w\<close>\<close>
  "is_word c \<longleftrightarrow> is_alnum c \<or> c = 95"

definition word_boundary :: "nat option \<Rightarrow> nat option \<Rightarrow> bool" where
  \<comment> \<open>\<open>\b\<close> between the character before and the character after a position
      (\<open>None\<close> at an end of the subject)\<close>
  "word_boundary prev succ \<longleftrightarrow>
     (case prev of None \<Rightarrow> False | Some c \<Rightarrow> is_word c)
       \<noteq> (case succ of None \<Rightarrow> False | Some c \<Rightarrow> is_word c)"

definition head :: "pystr \<Rightarrow> nat option" where
  "head s = (case s of [] \<Rightarrow> None | c # _ \<Rightarrow> Some c)"

subsection \<open>Pieces of a pattern\<close>

text \<open>
  A pattern is matched piece by piece, each piece giving the rest of the subject. All
  repetitions in the patterns of this program are greedy and are followed by a character
  outside the repeated class, so the longest repetition is the only candidate; the
  lemmas \<open>edge_match_iff\<close>, \<open>assign_match_iff\<close> and \<open>var_match_iff\<close> prove each
  matcher against the language of its pattern.
\<close>

definition lit :: "pystr \<Rightarrow> pystr \<Rightarrow> pystr option" where
  \<comment> \<open>a literal: the rest of the subject after it\<close>
  "lit w s = (if take (length w) s = w then Some (drop (length w) s) else None)"

definition rep1 :: "(nat \<Rightarrow> bool) \<Rightarrow> pystr \<Rightarrow> (pystr \<times> pystr) option" where
  \<comment> \<open>a greedy \<open>[...]+\<close>: what it consumed and the rest\<close>
  "rep1 P s = (if takeWhile P s = [] then None else Some (takeWhile P s, dropWhile P s))"

section \<open>The label formatter: \<open>_subscript_label\<close>\<close>

definition fullmatch_x_digits :: "pystr \<Rightarrow> pystr option" where
  \<comment> \<open>\<^verbatim>\<open>re.fullmatch(r"x(\d+)", var_name)\<close>: group 1. The repetition is greedy and the
      subject must end after it, so a shorter repetition cannot match either.\<close>
  "fullmatch_x_digits s =
     do {
       s1 \<leftarrow> lit (py ''x'') s;
       (digits, s2) \<leftarrow> rep1 is_decimal s1;
       if s2 = [] then Some digits else None
     }"

definition subs :: "nat \<rightharpoonup> pystr" where
  \<comment> \<open>the dictionary from the digits \<open>0\<close> .. \<open>9\<close> to the subscripts U+2080 .. U+2089\<close>
  "subs = [48 \<mapsto> [8320], 49 \<mapsto> [8321], 50 \<mapsto> [8322], 51 \<mapsto> [8323], 52 \<mapsto> [8324],
           53 \<mapsto> [8325], 54 \<mapsto> [8326], 55 \<mapsto> [8327], 56 \<mapsto> [8328], 57 \<mapsto> [8329]]"

definition subscript_label :: "pystr \<Rightarrow> pystr" where
  "subscript_label var_name =
     (case fullmatch_x_digits var_name of
        None \<Rightarrow> var_name
      | Some digits \<Rightarrow>
          py ''x'' @ concat (map (\<lambda>d. case subs d of Some g \<Rightarrow> g | None \<Rightarrow> [d]) digits))"

section \<open>The dependency extractor: \<open>build_dependency_dot\<close>\<close>

definition assign_match :: "pystr \<Rightarrow> pystr option" where
  \<comment> \<open>\<^verbatim>\<open>assign_re = re.compile(r"^\s*(x\d+)\s*=")\<close>, \<open>assign_re.match(line)\<close>: group 1.
      No character is in two of the classes that follow one another (white space, \<open>x\<close>,
      decimal digits, white space, \<open>=\<close>), so the greedy repetitions are the only candidates.\<close>
  "assign_match line =
     do {
       s1 \<leftarrow> lit (py ''x'') (dropWhile isspace line);
       (digits, s2) \<leftarrow> rep1 is_decimal s1;
       s3 \<leftarrow> lit (py ''='') (dropWhile isspace s2);
       Some (py ''x'' @ digits)
     }"

definition var_match :: "nat option \<Rightarrow> pystr \<Rightarrow> (pystr \<times> pystr) option" where
  \<comment> \<open>\<^verbatim>\<open>var_re = re.compile(r"\b(x\d+)\b")\<close> matched at a position, \<open>prev\<close> the
      character in front of it: group 1 and the rest of the subject. A decimal digit is a
      \<open>\w\<close> character, so there is no boundary inside the digits and the greedy repetition is
      the only candidate.\<close>
  "var_match prev s =
     (if word_boundary prev (head s)
      then do {
        s1 \<leftarrow> lit (py ''x'') s;
        (digits, s2) \<leftarrow> rep1 is_decimal s1;
        if word_boundary (Some (last digits)) (head s2) then Some (py ''x'' @ digits, s2) else None
      }
      else None)"

function var_findall :: "nat option \<Rightarrow> pystr \<Rightarrow> pystr list" where
  \<comment> \<open>\<open>var_re.findall(rhs)\<close>: the matches from left to right, each search starting where
      the match before it ended\<close>
  "var_findall prev s =
     (case var_match prev s of
        Some (v, rest) \<Rightarrow> v # var_findall (Some (last v)) rest
      | None \<Rightarrow> (case s of [] \<Rightarrow> [] | c # r \<Rightarrow> var_findall (Some c) r))"
  by pat_completeness auto
termination
proof (relation "measure (\<lambda>(prev, s). length s)")
  fix prev :: "nat option" and s :: pystr and m v rest
  assume "var_match prev s = Some m" and "(v, rest) = m"
  then obtain s1 where "s = 120 # s1" "rest = dropWhile is_decimal s1"
    by (auto simp: var_match_def lit_def rep1_def py_def split: if_splits bind_splits)
       (metis append_take_drop_id append_Cons append_Nil)
  then have "length rest < length s"
    by (simp add: le_imp_less_Suc length_dropWhile_le)
  then show "((Some (last v), rest), prev, s) \<in> measure (\<lambda>(prev, s). length s)"
    by simp
qed simp_all

definition rhs_of :: "pystr \<Rightarrow> error + pystr" where
  \<comment> \<open>\<open>line.split("=", 1)[1]\<close>: what follows the first \<open>=\<close>; the index is out of range when
      there is none\<close>
  "rhs_of line =
     (case dropWhile (\<lambda>c. c \<noteq> 61) line of [] \<Rightarrow> Inl IndexError | c # rhs \<Rightarrow> Inr rhs)"

record dep_graph =
  edges :: "(pystr \<times> pystr) set"
  nodes :: "pystr set"

definition add_var :: "pystr \<Rightarrow> dep_graph \<Rightarrow> pystr \<Rightarrow> dep_graph" where
  \<comment> \<open>the body of the loop over \<open>var_re.findall(rhs)\<close>\<close>
  "add_var target g var =
     (let g1 = g\<lparr>nodes := insert var (nodes g)\<rparr>
      in if var \<noteq> target then g1\<lparr>edges := insert (target, var) (edges g1)\<rparr> else g1)"

definition scan_line :: "dep_graph \<Rightarrow> pystr \<Rightarrow> error + dep_graph" where
  \<comment> \<open>the body of the loop over the lines\<close>
  "scan_line g raw =
     (let line = strip raw
      in if line = [] \<or> take 1 line = py ''#'' then Inr g
         else case assign_match line of
                None \<Rightarrow> Inr g
              | Some target \<Rightarrow>
                  (case rhs_of line of
                     Inl e \<Rightarrow> Inl e
                   | Inr rhs \<Rightarrow>
                       Inr (foldl (add_var target) (g\<lparr>nodes := insert target (nodes g)\<rparr>)
                              (var_findall None rhs))))"

fun scan_lines :: "dep_graph \<Rightarrow> pystr list \<Rightarrow> error + dep_graph" where
  "scan_lines g [] = Inr g"
| "scan_lines g (raw # ls) =
     (case scan_line g raw of Inl e \<Rightarrow> Inl e | Inr g' \<Rightarrow> scan_lines g' ls)"

definition dependency_graph :: "pystr \<Rightarrow> error + dep_graph" where
  \<comment> \<open>the sets \<open>edges\<close> and \<open>nodes\<close> after the loop\<close>
  "dependency_graph system_text = scan_lines \<lparr>edges = {}, nodes = {}\<rparr> (splitlines system_text)"

definition node_line :: "pystr \<Rightarrow> pystr" where
  \<open>node_line v = py ''  "'' @ v @ py ''" [label="'' @ subscript_label v @ py ''"];''\<close>

definition edge_line :: "pystr \<times> pystr \<Rightarrow> pystr" where
  \<open>edge_line e = py ''  "'' @ fst e @ py ''" -> "'' @ snd e @ py ''";''\<close>

definition build_dependency_dot :: "pystr \<Rightarrow> error + pystr" where
  \<open>build_dependency_dot system_text =
     (case dependency_graph system_text of
        Inl e \<Rightarrow> Inl e
      | Inr g \<Rightarrow>
          if edges g = {} \<and> nodes g = {} then Inr []
          else Inr (join_nl
                 ([py ''digraph dep {'',
                   py ''  rankdir=LR;'',
                   py ''  node [shape=ellipse, fontname="Monaco", fontsize=11];'',
                   py ''  edge [fontname="Monaco", fontsize=9];'']
                  @ map node_line (sorted_list_of_set (nodes g))
                  @ map edge_line (sorted_list_of_set (edges g))
                  @ [py ''}''])))\<close>

section \<open>The state-graph canonicalizer: \<open>_reorder_statespace_dot\<close>\<close>

text \<open>
  \<^verbatim>\<open>edge_pattern = re.compile(r'"([01 ]+)"\s*->\s*"[01 ]+"')\<close>
\<close>

definition is_label_char :: "nat \<Rightarrow> bool" where
  \<comment> \<open>the class \<open>[01 ]\<close>\<close>
  "is_label_char c \<longleftrightarrow> c = 48 \<or> c = 49 \<or> c = 32"

definition edge_match :: "pystr \<Rightarrow> pystr option" where
  \<comment> \<open>the pattern matched at the head of the subject: group 1\<close>
  \<open>edge_match s =
     do {
       s1 \<leftarrow> lit (py ''"'') s;
       (g1, s2) \<leftarrow> rep1 is_label_char s1;
       s3 \<leftarrow> lit (py ''"'') s2;
       s4 \<leftarrow> lit (py ''->'') (dropWhile isspace s3);
       s5 \<leftarrow> lit (py ''"'') (dropWhile isspace s4);
       (g2, s6) \<leftarrow> rep1 is_label_char s5;
       s7 \<leftarrow> lit (py ''"'') s6;
       Some g1
     }\<close>

fun edge_search :: "pystr \<Rightarrow> pystr option" where
  \<comment> \<open>\<open>edge_pattern.search(line)\<close>: the match at the leftmost position that has one\<close>
  "edge_search [] = edge_match []"
| "edge_search (c # s) =
     (case edge_match (c # s) of Some g \<Rightarrow> Some g | None \<Rightarrow> edge_search s)"

record partition =
  edge_lines :: "pystr list"
  prefix_lines :: "pystr list"
  closing_line :: pystr

definition classify :: "partition \<Rightarrow> pystr \<Rightarrow> partition" where
  \<comment> \<open>the body of the loop over the lines\<close>
  "classify st line =
     (if strip line = py ''}'' then st\<lparr>closing_line := line\<rparr>
      else if edge_search line \<noteq> None then st\<lparr>edge_lines := edge_lines st @ [line]\<rparr>
      else st\<lparr>prefix_lines := prefix_lines st @ [line]\<rparr>)"

definition key_for_line :: "pystr \<Rightarrow> error + (nat \<times> nat)" where
  "key_for_line line =
     (case edge_search line of
        None \<Rightarrow> Inr (0, 0)
      | Some raw \<Rightarrow>
          let bits = filter (\<lambda>c. c \<noteq> 32) raw;
              weight = count_list bits 49
          in if bits \<noteq> []
             then (case int_base2 bits of Inl e \<Rightarrow> Inl e | Inr val \<Rightarrow> Inr (weight, val))
             else Inr (weight, 0))"

definition new_lines :: "pystr list \<Rightarrow> error + pystr list" where
  \<comment> \<open>from the list of lines to the list \<open>new_lines\<close> that is joined\<close>
  "new_lines lines =
     (let st = foldl classify \<lparr>edge_lines = [], prefix_lines = [], closing_line = []\<rparr> lines
      in case sorted_key key_for_line (edge_lines st) of
           Inl e \<Rightarrow> Inl e
         | Inr edge_lines_sorted \<Rightarrow>
             Inr (prefix_lines st @ edge_lines_sorted
                  @ (if closing_line st \<noteq> [] then [closing_line st] else [])))"

definition reorder_statespace_dot :: "pystr \<Rightarrow> error + pystr" where
  "reorder_statespace_dot dot_source =
     (case new_lines (splitlines dot_source) of
        Inl e \<Rightarrow> Inl e
      | Inr ls \<Rightarrow> Inr (join_nl ls))"

section \<open>Notions of the specification\<close>

subsection \<open>Label formatter\<close>

definition is_ascii_digit :: "nat \<Rightarrow> bool" where
  \<comment> \<open>the digits \<open>0\<close> .. \<open>9\<close>\<close>
  "is_ascii_digit c \<longleftrightarrow> 48 \<le> c \<and> c \<le> 57"

definition subscript_glyph :: "nat \<Rightarrow> nat" where
  \<comment> \<open>the subscript glyph of a digit \<open>0\<close> .. \<open>9\<close>: U+2080 .. U+2089\<close>
  "subscript_glyph d = 8320 + (d - 48)"

definition is_subscript :: "nat \<Rightarrow> bool" where
  \<comment> \<open>one of the ten subscript glyphs\<close>
  "is_subscript g \<longleftrightarrow> 8320 \<le> g \<and> g \<le> 8329"

subsection \<open>Dependency extractor\<close>

text \<open>
  The equation shape and the occurrences of a variable, as the specification words them,
  and what one line of the input contributes to the graph.
\<close>

definition equation_shape :: "pystr \<Rightarrow> pystr \<Rightarrow> pystr \<Rightarrow> bool" where
  \<comment> \<open>\<open>line\<close> is optional white space, the variable \<open>target\<close>, optional white space,
      \<open>=\<close>, and \<open>rhs\<close>\<close>
  "equation_shape target rhs line \<longleftrightarrow>
     (\<exists>w1 ds w2.
        line = w1 @ py ''x'' @ ds @ w2 @ py ''='' @ rhs
        \<and> list_all isspace w1 \<and> ds \<noteq> [] \<and> list_all is_decimal ds \<and> list_all isspace w2
        \<and> target = py ''x'' @ ds)"

definition var_at :: "nat option \<Rightarrow> pystr \<Rightarrow> pystr \<Rightarrow> pystr \<Rightarrow> bool" where
  \<comment> \<open>the variable \<open>v\<close> stands in \<open>s\<close> right after \<open>pre\<close>, with a word boundary on
      either side (\<open>prev\<close> is the character in front of \<open>s\<close>)\<close>
  "var_at prev pre v s \<longleftrightarrow>
     (\<exists>ds post.
        s = pre @ py ''x'' @ ds @ post \<and> v = py ''x'' @ ds
        \<and> ds \<noteq> [] \<and> list_all is_decimal ds
        \<and> word_boundary (if pre = [] then prev else Some (last pre)) (Some 120)
        \<and> word_boundary (Some (last ds)) (head post))"

definition variable_occurs :: "pystr \<Rightarrow> pystr \<Rightarrow> bool" where
  \<comment> \<open>a word-boundary-matched occurrence of the variable \<open>v\<close> in \<open>s\<close>\<close>
  "variable_occurs v s \<longleftrightarrow> (\<exists>pre. var_at None pre v s)"

definition equation_line :: "pystr \<Rightarrow> (pystr \<times> pystr list) option" where
  \<comment> \<open>the target and the referenced variables of a line, if it is an equation\<close>
  "equation_line raw =
     (case assign_match (strip raw) of
        None \<Rightarrow> None
      | Some target \<Rightarrow>
          Some (target, var_findall None (drop 1 (dropWhile (\<lambda>c. c \<noteq> 61) (strip raw)))))"

definition line_nodes :: "pystr \<Rightarrow> pystr set" where
  "line_nodes raw = (case equation_line raw of None \<Rightarrow> {} | Some (target, vars) \<Rightarrow> insert target (set vars))"

definition line_edges :: "pystr \<Rightarrow> (pystr \<times> pystr) set" where
  "line_edges raw =
     (case equation_line raw of
        None \<Rightarrow> {}
      | Some (target, vars) \<Rightarrow> {(target, v) |v. v \<in> set vars \<and> v \<noteq> target})"

definition example_system :: pystr where
  \<comment> \<open>the example of the specification\<close>
  "example_system = py ''x1 = x2\<newline>x2 = x1 + x3\<newline>x3 = x2 + x1''"

definition header_only :: pystr where
  \<comment> \<open>a text without equation: header lines, a comment, an assignment to another name\<close>
  "header_only = py ''NUMBER OF VARIABLES: 3\<newline>NUMBER OF STATES: 2\<newline># x1 = x2\<newline>y = x1''"

subsection \<open>Canonicalizer\<close>

text \<open>
  A closing line, an edge line, the Hamming weight and the binary value of a state label,
  the key of a line, and the list of lines the function puts together (prefix lines,
  sorted edge lines, the last closing line).
\<close>

definition is_closing :: "pystr \<Rightarrow> bool" where
  \<comment> \<open>a line that is the closing brace once stripped\<close>
  "is_closing l \<longleftrightarrow> strip l = py ''}''"

definition is_edge :: "pystr \<Rightarrow> bool" where
  \<comment> \<open>a line in which the edge pattern is found\<close>
  "is_edge l \<longleftrightarrow> edge_search l \<noteq> None"

definition hamming_weight :: "pystr \<Rightarrow> nat" where
  \<comment> \<open>the number of \<open>1\<close> digits of a label\<close>
  "hamming_weight label = length (filter (\<lambda>c. c = 49) label)"

definition binary_value :: "pystr \<Rightarrow> nat" where
  \<comment> \<open>the digits of a label, blanks dropped, read in base 2; no digit gives 0\<close>
  "binary_value label = foldl (\<lambda>a c. 2 * a + (c - 48)) 0 (filter (\<lambda>c. c \<noteq> 32) label)"

definition line_key :: "pystr \<Rightarrow> nat \<times> nat" where
  "line_key l =
     (case edge_search l of
        None \<Rightarrow> (0, 0)
      | Some label \<Rightarrow> (hamming_weight label, binary_value label))"

definition canon :: "pystr list \<Rightarrow> pystr list" where
  \<comment> \<open>prefix lines, then the edge lines sorted by key, then the last closing line\<close>
  "canon ls =
     filter (\<lambda>l. \<not> is_closing l \<and> \<not> is_edge l) ls
     @ sort_key line_key (filter is_edge ls)
     @ (if filter is_closing ls = [] then [] else [last (filter is_closing ls)])"

definition source_label :: "pystr \<Rightarrow> pystr" where
  \<comment> \<open>the source state label of a line: group 1 of the leftmost match of the edge pattern\<close>
  "source_label l = (case edge_search l of None \<Rightarrow> [] | Some label \<Rightarrow> label)"

definition key_le :: "pystr \<Rightarrow> pystr \<Rightarrow> bool" where
  \<comment> \<open>ascending by Hamming weight, then by binary value, of the source labels\<close>
  "key_le a b \<longleftrightarrow>
     hamming_weight (source_label a) < hamming_weight (source_label b)
     \<or> (hamming_weight (source_label a) = hamming_weight (source_label b)
        \<and> binary_value (source_label a) \<le> binary_value (source_label b))"

definition edge_occurrence :: "pystr \<Rightarrow> pystr \<Rightarrow> bool" where
  \<comment> \<open>the words of the specification: \<open>s\<close> begins with a quoted label \<open>g\<close> of binary
      digits and blanks, \<open>->\<close> with optional white space around it, and a second quoted label\<close>
  \<open>edge_occurrence g s \<longleftrightarrow>
     (\<exists>w1 w2 g2 post.
        s = py ''"'' @ g @ py ''"'' @ w1 @ py ''->'' @ w2 @ py ''"'' @ g2 @ py ''"'' @ post
        \<and> g \<noteq> [] \<and> list_all is_label_char g
        \<and> list_all isspace w1 \<and> list_all isspace w2
        \<and> g2 \<noteq> [] \<and> list_all is_label_char g2)\<close>

fun first_quoted_label :: "pystr \<Rightarrow> pystr option" where
  \<comment> \<open>the words of claim C10: the first quoted label of binary digits and blanks in a line\<close>
  "first_quoted_label [] = None"
| "first_quoted_label (c # s) =
     (if c = 34 \<and> takeWhile is_label_char s \<noteq> []
         \<and> take 1 (dropWhile is_label_char s) = [34]
      then Some (takeWhile is_label_char s)
      else first_quoted_label s)"

definition sample_dot :: pystr where
  \<comment> \<open>a small state-space graph with its edges out of order\<close>
  \<open>sample_dot = py ''digraph G {\<newline>"1 1" -> "1 0";\<newline>"0 1" -> "1 1";\<newline>"1 0" -> "0 1";\<newline>"0 0" -> "0 0";\<newline>}''\<close>

section \<open>Properties of the string primitives and of the matchers\<close>

subsection \<open>Strings and lists\<close>

lemma py_simps: "py [] = []" "py (c # s) = of_char c # py s"
  by (simp_all add: py_def)

lemma rev_drop_take_While: "rev (dropWhile P xs) @ rev (takeWhile P xs) = rev xs"
  by (metis rev_append takeWhile_dropWhile_id)

lemma strip_decomp:
  "l = takeWhile isspace l @ strip l @ rev (takeWhile isspace (rev (dropWhile isspace l)))"
proof -
  have "strip l @ rev (takeWhile isspace (rev (dropWhile isspace l))) = dropWhile isspace l"
    using rev_drop_take_While [of isspace "rev (dropWhile isspace l)"]
    by (simp add: strip_def)
  then show ?thesis by simp
qed

lemma strip_chars:
  assumes "c \<in> set l" shows "isspace c \<or> c \<in> set (strip l)"
proof -
  have "c \<in> set (takeWhile isspace l @ strip l @ rev (takeWhile isspace (rev (dropWhile isspace l))))"
    using assms strip_decomp [of l] by simp
  then show ?thesis
    by (auto dest: set_takeWhileD)
qed

declare splitlines.simps [simp del]

lemma splitlines_Nil [simp]: "splitlines [] = []"
  by (simp add: splitlines.simps)

lemma splitlines_no_break: "l \<in> set (splitlines s) \<Longrightarrow> c \<in> set l \<Longrightarrow> \<not> is_linebreak c"
proof (induction s rule: splitlines.induct)
  case (1 s)
  show ?case
  proof (cases "s = []")
    case True
    with "1.prems" show ?thesis by simp
  next
    case False
    with "1.prems" have
      "l = takeWhile (\<lambda>c. \<not> is_linebreak c) s
       \<or> l \<in> set (splitlines (after_break (dropWhile (\<lambda>c. \<not> is_linebreak c) s)))"
      by (subst (asm) splitlines.simps) simp
    then show ?thesis
    proof
      assume "l = takeWhile (\<lambda>c. \<not> is_linebreak c) s"
      with "1.prems" show ?thesis by (auto dest: set_takeWhileD)
    next
      assume "l \<in> set (splitlines (after_break (dropWhile (\<lambda>c. \<not> is_linebreak c) s)))"
      with "1.IH" False "1.prems" show ?thesis by blast
    qed
  qed
qed

lemma splitlines_line:
  assumes "\<forall>c\<in>set l. \<not> is_linebreak c"
  shows "splitlines (l @ 10 # r) = l # splitlines r"
proof -
  have lb: "is_linebreak 10" by (simp add: is_linebreak_def)
  have t: "takeWhile (\<lambda>c. \<not> is_linebreak c) (l @ 10 # r) = l"
    using assms lb by (simp add: takeWhile_append2)
  have d: "dropWhile (\<lambda>c. \<not> is_linebreak c) (l @ 10 # r) = 10 # r"
    using assms lb by (simp add: dropWhile_append2)
  have a: "splitlines (after_break (10 # r)) = splitlines r"
    by (cases r) (simp_all add: after_break_def)
  show ?thesis
    by (subst splitlines.simps) (simp add: t d a)
qed

lemma splitlines_single:
  assumes "\<forall>c\<in>set l. \<not> is_linebreak c" "l \<noteq> []"
  shows "splitlines l = [l]"
proof -
  have t: "takeWhile (\<lambda>c. \<not> is_linebreak c) l = l" using assms by simp
  have d: "dropWhile (\<lambda>c. \<not> is_linebreak c) l = []" using assms by simp
  show ?thesis
    by (subst splitlines.simps) (simp add: t d after_break_def assms)
qed

lemma splitlines_join:
  "\<forall>l\<in>set M. \<forall>c\<in>set l. \<not> is_linebreak c \<Longrightarrow>
     splitlines (join_nl M) = (if M \<noteq> [] \<and> last M = [] then butlast M else M)"
proof (induction M rule: join_nl.induct)
  case 1
  show ?case by simp
next
  case (2 l)
  then show ?case by (cases "l = []") (simp_all add: splitlines_single)
next
  case (3 l m ls)
  then show ?case by (simp add: splitlines_line)
qed

lemma join_nl_snoc: "X \<noteq> [] \<Longrightarrow> join_nl (X @ [l]) = join_nl X @ 10 # l"
  by (induction X rule: join_nl.induct) simp_all

lemma length_join_nl: "length (join_nl X) = sum_list (map length X) + (length X - 1)"
  by (induction X rule: join_nl.induct) simp_all

lemma join_ends_newline:
  assumes nb: "\<forall>l\<in>set M. \<forall>c\<in>set l. \<not> is_linebreak c"
  shows "(join_nl M \<noteq> [] \<and> last (join_nl M) = 10) \<longleftrightarrow> (butlast M \<noteq> [] \<and> last M = [])"
proof (cases M rule: rev_cases)
  case Nil
  then show ?thesis by simp
next
  case (snoc X l)
  have lb: "is_linebreak 10" by (simp add: is_linebreak_def)
  from nb snoc have l: "\<forall>c\<in>set l. \<not> is_linebreak c" by simp
  then have l10: "l \<noteq> [] \<Longrightarrow> last l \<noteq> 10" using lb last_in_set by metis
  show ?thesis
  proof (cases "X = []")
    case True
    with snoc l10 show ?thesis by auto
  next
    case False
    with snoc l10 show ?thesis by (auto simp: join_nl_snoc)
  qed
qed

lemma takeWhile_run:
  "list_all P g \<Longrightarrow> \<not> P c \<Longrightarrow> takeWhile P (g @ c # r) = g"
  by (induction g) simp_all

lemma dropWhile_run:
  "list_all P g \<Longrightarrow> \<not> P c \<Longrightarrow> dropWhile P (g @ c # r) = c # r"
  by (induction g) simp_all

lemma list_all_takeWhile: "list_all P (takeWhile P xs)"
  by (induction xs) simp_all

lemma takeWhile_all: "list_all P xs \<Longrightarrow> takeWhile P xs = xs"
  by (induction xs) simp_all

lemma dropWhile_all: "list_all P xs \<Longrightarrow> dropWhile P xs = []"
  by (induction xs) simp_all

lemma takeWhile_run_end:
  "list_all P g \<Longrightarrow> r = [] \<or> \<not> P (hd r) \<Longrightarrow> takeWhile P (g @ r) = g"
  by (cases r) (simp_all add: takeWhile_all takeWhile_run)

lemma dropWhile_run_end:
  "list_all P g \<Longrightarrow> r = [] \<or> \<not> P (hd r) \<Longrightarrow> dropWhile P (g @ r) = r"
  by (cases r) (simp_all add: dropWhile_all dropWhile_run)

lemma lit_Some: "lit w s = Some r \<longleftrightarrow> s = w @ r"
  by (auto simp: lit_def) (metis append_take_drop_id)

lemma rep1_Some:
  "rep1 P s = Some (g, r) \<longleftrightarrow> g \<noteq> [] \<and> g = takeWhile P s \<and> r = dropWhile P s"
  by (auto simp: rep1_def)

subsection \<open>Character classes\<close>

lemma in_ranges_table_cong: "c = c' \<Longrightarrow> in_ranges c rs = in_ranges c' rs"
  by simp

lemma ascii_classes:
  "\<not> is_word 32" "\<not> is_word 43" "is_word 120" "is_word 49" "is_word 50" "is_word 51"
  "\<not> is_decimal 32" "\<not> is_decimal 43" "\<not> is_decimal 120" "\<not> is_decimal 61"
  "is_decimal 49" "is_decimal 50" "is_decimal 51"
  unfolding is_word_def is_alnum_def is_decimal_def alpha_ranges_def decimal_ranges_def numeric_ranges_def
  by (simp_all cong: in_ranges_table_cong)

lemma decimal_is_word: "is_decimal c \<Longrightarrow> is_word c"
  by (simp add: is_word_def is_alnum_def)

lemma x_classes: "\<not> is_decimal 120" "\<not> isspace 120" "\<not> isspace 61" "\<not> is_decimal 61"
  by (simp_all add: ascii_classes isspace_def)

lemma space_not_decimal: "isspace c \<Longrightarrow> \<not> is_decimal c"
proof -
  assume "isspace c"
  then have "c = 9 \<or> c = 10 \<or> c = 11 \<or> c = 12 \<or> c = 13 \<or> c = 28 \<or> c = 29 \<or> c = 30 \<or> c = 31
      \<or> c = 32 \<or> c = 133 \<or> c = 160 \<or> c = 5760 \<or> c = 8192 \<or> c = 8193 \<or> c = 8194 \<or> c = 8195
      \<or> c = 8196 \<or> c = 8197 \<or> c = 8198 \<or> c = 8199 \<or> c = 8200 \<or> c = 8201 \<or> c = 8202
      \<or> c = 8232 \<or> c = 8233 \<or> c = 8239 \<or> c = 8287 \<or> c = 12288"
    unfolding isspace_def by arith
  then show ?thesis
    unfolding is_decimal_def decimal_ranges_def
    by (elim disjE) (simp_all cong: in_ranges_table_cong)
qed

lemma class_facts:
  "\<not> is_label_char 34" "\<not> isspace 34" "\<not> isspace 45"
  by (simp_all add: is_label_char_def isspace_def)

lemma ascii_digit_decimal: "is_ascii_digit d \<Longrightarrow> is_decimal d"
  by (simp add: is_ascii_digit_def is_decimal_def decimal_ranges_def)

lemma boundary_after_digits:
  "is_decimal d \<Longrightarrow> word_boundary (Some d) (head rest) \<Longrightarrow> rest = [] \<or> \<not> is_decimal (hd rest)"
  by (cases rest) (auto simp: word_boundary_def head_def dest: decimal_is_word)

subsection \<open>Keys and sorting\<close>

lemma int_digits2_bits:
  "\<forall>c\<in>set s. c = 48 \<or> c = 49 \<Longrightarrow>
     int_digits2 acc s = Inr (foldl (\<lambda>a c. 2 * a + (c - 48)) acc s)"
  by (induction s arbitrary: acc) auto

lemma count_list_filter_eq: "count_list xs a = length (filter (\<lambda>c. c = a) xs)"
  by (induction xs) auto

lemma decorate_total:
  "(\<And>x. f x = Inr (g x)) \<Longrightarrow> decorate f xs = Inr (map (\<lambda>x. (g x, x)) xs)"
  by (induction xs) simp_all

lemma insort_key_decorated:
  "insort_key fst (g x, x) (map (\<lambda>x. (g x, x)) ys) = map (\<lambda>x. (g x, x)) (insort_key g x ys)"
  by (induction ys) simp_all

lemma sort_key_decorated:
  "sort_key fst (map (\<lambda>x. (g x, x)) xs) = map (\<lambda>x. (g x, x)) (sort_key g xs)"
  by (induction xs) (simp_all add: insort_key_decorated)

lemma sorted_key_total:
  assumes "\<And>x. f x = Inr (g x)" shows "sorted_key f xs = Inr (sort_key g xs)"
  by (simp add: sorted_key_def decorate_total [of f g, OF assms] sort_key_decorated comp_def)

section \<open>Properties of the label formatter\<close>

lemma fullmatch_x_digits_iff:
  "fullmatch_x_digits s = Some ds \<longleftrightarrow> s = py ''x'' @ ds \<and> ds \<noteq> [] \<and> list_all is_decimal ds"
proof
  assume "fullmatch_x_digits s = Some ds"
  then obtain s1 where s: "s = py ''x'' @ s1" and tw: "takeWhile is_decimal s1 = ds"
    and ne: "ds \<noteq> []" and e: "dropWhile is_decimal s1 = []"
    by (auto simp: fullmatch_x_digits_def lit_Some rep1_Some split: bind_splits if_splits)
  have eq: "s1 = ds" by (metis tw e takeWhile_dropWhile_id append_Nil2)
  have "list_all is_decimal ds"
    using list_all_takeWhile [of is_decimal s1] unfolding tw .
  with ne show "s = py ''x'' @ ds \<and> ds \<noteq> [] \<and> list_all is_decimal ds"
    unfolding s eq by (intro conjI refl)
next
  assume "s = py ''x'' @ ds \<and> ds \<noteq> [] \<and> list_all is_decimal ds"
  then show "fullmatch_x_digits s = Some ds"
    by (simp add: fullmatch_x_digits_def lit_def rep1_def takeWhile_all dropWhile_all)
qed

lemma subs_get:
  "(case subs d of Some g \<Rightarrow> g | None \<Rightarrow> [d])
     = [if is_ascii_digit d then subscript_glyph d else d]"
proof (cases "is_ascii_digit d")
  case True
  then have "d = 48 \<or> d = 49 \<or> d = 50 \<or> d = 51 \<or> d = 52 \<or> d = 53 \<or> d = 54 \<or> d = 55
               \<or> d = 56 \<or> d = 57"
    unfolding is_ascii_digit_def by arith
  then show ?thesis
    by (auto simp: subs_def subscript_glyph_def is_ascii_digit_def)
next
  case False
  then have "subs d = None" by (auto simp: subs_def is_ascii_digit_def)
  with False show ?thesis by simp
qed

lemma subscript_label_match:
  "ds \<noteq> [] \<Longrightarrow> list_all is_decimal ds \<Longrightarrow>
     subscript_label (py ''x'' @ ds)
       = py ''x'' @ map (\<lambda>d. if is_ascii_digit d then subscript_glyph d else d) ds"
proof -
  assume "ds \<noteq> []" "list_all is_decimal ds"
  then have "fullmatch_x_digits (py ''x'' @ ds) = Some ds"
    by (simp add: fullmatch_x_digits_iff)
  moreover have "concat (map (\<lambda>d. case subs d of Some g \<Rightarrow> g | None \<Rightarrow> [d]) ds)
          = map (\<lambda>d. if is_ascii_digit d then subscript_glyph d else d) ds"
    unfolding subs_get by (induction ds) simp_all
  ultimately show ?thesis by (simp add: subscript_label_def)
qed

section \<open>Properties of the dependency extractor\<close>

declare var_findall.simps [simp del]

lemma assign_match_line:
  assumes "assign_match line = Some t"
  shows "61 \<in> set line" and "line \<noteq> []" and "take 1 line \<noteq> py ''#''"
proof -
  from assms obtain s1 s3 where
    a: "dropWhile isspace line = 120 # s1"
    and b: "dropWhile isspace (dropWhile is_decimal s1) = 61 # s3"
    by (auto simp: assign_match_def lit_Some rep1_Some py_simps split: bind_splits)
  have "61 \<in> set (dropWhile isspace (dropWhile is_decimal s1))" by (simp add: b)
  then have "61 \<in> set s1" by (blast dest: set_dropWhileD)
  then have "61 \<in> set (dropWhile isspace line)" by (simp add: a)
  then show "61 \<in> set line" by (rule set_dropWhileD)
  from a show "line \<noteq> []" by auto
  show "take 1 line \<noteq> py ''#''"
  proof
    assume "take 1 line = py ''#''"
    then obtain r where "line = 35 # r" by (cases line) (simp_all add: py_simps)
    with a show False by (simp add: isspace_def)
  qed
qed

lemma rhs_of_total:
  "61 \<in> set line \<Longrightarrow> rhs_of line = Inr (drop 1 (dropWhile (\<lambda>c. c \<noteq> 61) line))"
proof -
  assume "61 \<in> set line"
  then have "dropWhile (\<lambda>c. c \<noteq> 61) line \<noteq> []" by (simp add: dropWhile_eq_Nil_conv)
  then show ?thesis by (cases "dropWhile (\<lambda>c. c \<noteq> 61) line") (simp_all add: rhs_of_def)
qed

lemma foldl_add_var:
  "foldl (add_var t) g vs
     = \<lparr>edges = edges g \<union> {(t, v) |v. v \<in> set vs \<and> v \<noteq> t}, nodes = nodes g \<union> set vs\<rparr>"
proof (induction vs arbitrary: g)
  case Nil
  show ?case by simp
next
  case (Cons v vs)
  have step: "foldl (add_var t) g (v # vs) = foldl (add_var t) (add_var t g v) vs" by simp
  show ?case
    unfolding step Cons.IH by (auto simp: add_var_def Let_def)
qed

lemma scan_line_eq:
  "scan_line g raw
     = Inr \<lparr>edges = edges g \<union> line_edges raw, nodes = nodes g \<union> line_nodes raw\<rparr>"
proof (cases "assign_match (strip raw)")
  case None
  then show ?thesis
    by (simp add: scan_line_def Let_def line_edges_def line_nodes_def equation_line_def)
next
  case (Some t)
  note m = assign_match_line [OF Some]
  from m(1) have r: "rhs_of (strip raw) = Inr (drop 1 (dropWhile (\<lambda>c. c \<noteq> 61) (strip raw)))"
    by (rule rhs_of_total)
  show ?thesis
    using Some m(2,3) r
    by (simp add: scan_line_def Let_def line_edges_def line_nodes_def equation_line_def foldl_add_var)
qed

lemma scan_lines_eq:
  "scan_lines g ls
     = Inr \<lparr>edges = edges g \<union> (\<Union>l\<in>set ls. line_edges l),
            nodes = nodes g \<union> (\<Union>l\<in>set ls. line_nodes l)\<rparr>"
proof (induction ls arbitrary: g)
  case Nil
  show ?case by simp
next
  case (Cons l ls)
  show ?case
    by (simp add: scan_line_eq Cons.IH Un_assoc)
qed

lemma dependency_graph_eq:
  "dependency_graph text
     = Inr \<lparr>edges = (\<Union>l\<in>set (splitlines text). line_edges l),
            nodes = (\<Union>l\<in>set (splitlines text). line_nodes l)\<rparr>"
  by (simp add: dependency_graph_def scan_lines_eq)

lemma var_match_iff:
  "var_match prev s = Some (v, rest) \<longleftrightarrow>
     (\<exists>ds. s = 120 # ds @ rest \<and> v = 120 # ds \<and> ds \<noteq> [] \<and> list_all is_decimal ds
        \<and> word_boundary prev (Some 120) \<and> word_boundary (Some (last ds)) (head rest))"
proof
  assume "var_match prev s = Some (v, rest)"
  then obtain s1 where b: "word_boundary prev (head s)" and s: "s = 120 # s1"
    and tw: "takeWhile is_decimal s1 \<noteq> []" and v: "v = 120 # takeWhile is_decimal s1"
    and r: "rest = dropWhile is_decimal s1"
    and a: "word_boundary (Some (last (takeWhile is_decimal s1))) (head rest)"
    by (auto simp: var_match_def lit_Some rep1_Some py_simps split: if_splits bind_splits)
  have "s = 120 # takeWhile is_decimal s1 @ rest" by (simp add: s r)
  moreover from b s have "word_boundary prev (Some 120)" by (simp add: head_def)
  ultimately show "\<exists>ds. s = 120 # ds @ rest \<and> v = 120 # ds \<and> ds \<noteq> [] \<and> list_all is_decimal ds
        \<and> word_boundary prev (Some 120) \<and> word_boundary (Some (last ds)) (head rest)"
    using tw v a list_all_takeWhile [of is_decimal s1] by blast
next
  assume "\<exists>ds. s = 120 # ds @ rest \<and> v = 120 # ds \<and> ds \<noteq> [] \<and> list_all is_decimal ds
        \<and> word_boundary prev (Some 120) \<and> word_boundary (Some (last ds)) (head rest)"
  then obtain ds where s: "s = 120 # ds @ rest" and v: "v = 120 # ds" and ne: "ds \<noteq> []"
    and d: "list_all is_decimal ds" and b: "word_boundary prev (Some 120)"
    and a: "word_boundary (Some (last ds)) (head rest)"
    by blast
  from ne d have "is_decimal (last ds)" by (simp add: list_all_iff)
  then have e: "rest = [] \<or> \<not> is_decimal (hd rest)" using a by (rule boundary_after_digits)
  have t: "takeWhile is_decimal (ds @ rest) = ds" using d e by (rule takeWhile_run_end)
  have r: "dropWhile is_decimal (ds @ rest) = rest" using d e by (rule dropWhile_run_end)
  show "var_match prev s = Some (v, rest)"
    unfolding var_match_def s v using b a ne
    by (simp add: head_def lit_def rep1_def py_simps t r)
qed

lemma var_at_Nil: "var_at prev [] v s \<longleftrightarrow> (\<exists>rest. var_match prev s = Some (v, rest))"
  unfolding var_match_iff var_at_def by (auto simp: py_simps)

lemma var_at_Cons:
  "var_at prev (c # pre) v (c' # r) \<longleftrightarrow> c = c' \<and> var_at (Some c) pre v r"
  unfolding var_at_def by (cases "pre = []") auto

lemma var_at_empty: "\<not> var_at prev pre v []"
  by (simp add: var_at_def py_simps)

lemma var_at_skip_digits:
  "list_all is_decimal ds \<Longrightarrow>
     var_at (Some b) pre v (ds @ rest)
       \<longleftrightarrow> (\<exists>pre'. pre = ds @ pre' \<and> var_at (Some (last (b # ds))) pre' v rest)"
proof (induction ds arbitrary: b pre)
  case Nil
  show ?case by simp
next
  case (Cons d ds)
  then have d: "is_decimal d" and ds: "list_all is_decimal ds" by simp_all
  show ?case
  proof (cases pre)
    case Nil
    have "\<not> var_at (Some b) [] v ((d # ds) @ rest)"
      unfolding var_at_def using d x_classes(1) by (auto simp: py_simps)
    with Nil show ?thesis by simp
  next
    case (Cons c p)
    show ?thesis
      unfolding Cons using Cons.IH [OF ds, of d p] by (auto simp: var_at_Cons)
  qed
qed

lemma var_findall_occurrences:
  "set (var_findall prev s) = {v. \<exists>pre. var_at prev pre v s}"
proof (induction prev s rule: var_findall.induct)
  case (1 prev s)
  show ?case
  proof (cases "var_match prev s")
    case None
    show ?thesis
    proof (cases s)
      case Nil
      show ?thesis
        using None unfolding Nil by (subst var_findall.simps) (simp add: var_at_empty)
    next
      case (Cons c r)
      have "(\<exists>pre. var_at prev pre v s) \<longleftrightarrow> (\<exists>p. var_at (Some c) p v r)" for v
      proof
        assume "\<exists>pre. var_at prev pre v s"
        then obtain pre where p: "var_at prev pre v s" by blast
        show "\<exists>p. var_at (Some c) p v r"
        proof (cases pre)
          case Nil
          with p None show ?thesis by (simp add: var_at_Nil)
        next
          case (Cons c' p')
          with p \<open>s = c # r\<close> show ?thesis by (auto simp: var_at_Cons)
        qed
      next
        assume "\<exists>p. var_at (Some c) p v r"
        then obtain p where "var_at (Some c) p v r" by blast
        then have "var_at prev (c # p) v s" by (simp add: Cons var_at_Cons)
        then show "\<exists>pre. var_at prev pre v s" by blast
      qed
      moreover have "var_findall prev s = var_findall (Some c) r"
        using None Cons by (subst var_findall.simps) simp
      ultimately show ?thesis
        using "1.IH"(1) [OF None Cons] by simp
    qed
  next
    case (Some m)
    obtain v rest where m: "m = (v, rest)" by (cases m)
    with Some have vm: "var_match prev s = Some (v, rest)" by simp
    then obtain ds where s: "s = 120 # ds @ rest" and v: "v = 120 # ds" and ne: "ds \<noteq> []"
      and d: "list_all is_decimal ds"
      unfolding var_match_iff by blast
    have lv: "last v = last (120 # ds)" by (simp add: v)
    have "(\<exists>pre. var_at prev pre v' s) \<longleftrightarrow> v' = v \<or> (\<exists>p. var_at (Some (last v)) p v' rest)" for v'
    proof
      assume "\<exists>pre. var_at prev pre v' s"
      then obtain pre where p: "var_at prev pre v' s" by blast
      show "v' = v \<or> (\<exists>p. var_at (Some (last v)) p v' rest)"
      proof (cases pre)
        case Nil
        with p vm show ?thesis by (auto simp: var_at_Nil)
      next
        case (Cons c p')
        with p have "var_at (Some 120) p' v' (ds @ rest)" by (auto simp: s var_at_Cons)
        then show ?thesis
          unfolding var_at_skip_digits [OF d] lv by blast
      qed
    next
      assume "v' = v \<or> (\<exists>p. var_at (Some (last v)) p v' rest)"
      then show "\<exists>pre. var_at prev pre v' s"
      proof
        assume "v' = v"
        with vm have "var_at prev [] v' s" unfolding var_at_Nil by blast
        then show ?thesis by blast
      next
        assume "\<exists>p. var_at (Some (last v)) p v' rest"
        then obtain p where "var_at (Some (last (120 # ds))) p v' rest" unfolding lv by blast
        then have "var_at (Some 120) (ds @ p) v' (ds @ rest)"
          unfolding var_at_skip_digits [OF d] by blast
        then have "var_at prev (120 # ds @ p) v' s" by (simp add: s var_at_Cons)
        then show ?thesis by blast
      qed
    qed
    moreover have "var_findall prev s = v # var_findall (Some (last v)) rest"
      using vm by (subst var_findall.simps) simp
    ultimately show ?thesis
      using "1.IH"(2) [OF Some m [symmetric]] by auto
  qed
qed

lemma var_findall_variable_occurs: "set (var_findall None s) = {v. variable_occurs v s}"
  by (simp add: var_findall_occurrences variable_occurs_def)

lemma assign_match_iff:
  "assign_match line = Some t \<and> rhs_of line = Inr rhs \<longleftrightarrow> equation_shape t rhs line"
proof
  assume a: "assign_match line = Some t \<and> rhs_of line = Inr rhs"
  then obtain s1 s3 where l: "dropWhile isspace line = 120 # s1"
    and tw: "takeWhile is_decimal s1 \<noteq> []" and t: "t = 120 # takeWhile is_decimal s1"
    and e: "dropWhile isspace (dropWhile is_decimal s1) = 61 # s3"
    by (auto simp: assign_match_def lit_Some rep1_Some py_simps split: bind_splits)
  define w1 where "w1 = takeWhile isspace line"
  define ds where "ds = takeWhile is_decimal s1"
  define w2 where "w2 = takeWhile isspace (dropWhile is_decimal s1)"
  have w: "list_all isspace w1" "list_all is_decimal ds" "list_all isspace w2"
    by (simp_all add: w1_def ds_def w2_def list_all_takeWhile)
  have "line = w1 @ 120 # s1"
    unfolding w1_def using l takeWhile_dropWhile_id [of isspace line] by simp
  moreover have "s1 = ds @ dropWhile is_decimal s1" by (simp add: ds_def)
  moreover have "dropWhile is_decimal s1 = w2 @ 61 # s3"
    unfolding w2_def using e takeWhile_dropWhile_id [of isspace "dropWhile is_decimal s1"] by simp
  ultimately have line: "line = w1 @ 120 # ds @ w2 @ 61 # s3" by simp
  have n1: "list_all (\<lambda>c. c \<noteq> 61) (w1 @ 120 # ds @ w2)"
    using w x_classes by (auto simp: list_all_iff dest: space_not_decimal)
  have "dropWhile (\<lambda>c. c \<noteq> 61) line = 61 # s3"
    unfolding line using dropWhile_run [OF n1, of 61 s3] by simp
  with a have "rhs = s3" by (simp add: rhs_of_def)
  with line w tw t show "equation_shape t rhs line"
    unfolding equation_shape_def ds_def [symmetric] by (auto simp: py_simps)
next
  assume "equation_shape t rhs line"
  then obtain w1 ds w2 where line: "line = w1 @ 120 # ds @ w2 @ 61 # rhs"
    and w: "list_all isspace w1" "list_all is_decimal ds" "list_all isspace w2"
    and ne: "ds \<noteq> []" and t: "t = 120 # ds"
    by (auto simp: equation_shape_def py_simps)
  have d1: "dropWhile isspace line = 120 # ds @ w2 @ 61 # rhs"
    unfolding line using w(1) x_classes(2) by (rule dropWhile_run)
  have e: "w2 @ 61 # rhs = [] \<or> \<not> is_decimal (hd (w2 @ 61 # rhs))"
    using w(3) x_classes(4) by (cases w2) (auto dest: space_not_decimal)
  have t2: "takeWhile is_decimal (ds @ w2 @ 61 # rhs) = ds" using w(2) e by (rule takeWhile_run_end)
  have d2: "dropWhile is_decimal (ds @ w2 @ 61 # rhs) = w2 @ 61 # rhs" using w(2) e by (rule dropWhile_run_end)
  have d3: "dropWhile isspace (w2 @ 61 # rhs) = 61 # rhs" using w(3) x_classes(3) by (rule dropWhile_run)
  have n1: "list_all (\<lambda>c. c \<noteq> 61) (w1 @ 120 # ds @ w2)"
    using w x_classes by (auto simp: list_all_iff dest: space_not_decimal)
  have d4: "dropWhile (\<lambda>c. c \<noteq> 61) line = 61 # rhs"
    unfolding line using dropWhile_run [OF n1, of 61 rhs] by simp
  show "assign_match line = Some t \<and> rhs_of line = Inr rhs"
    using ne by (simp add: assign_match_def rhs_of_def lit_def rep1_def py_simps d1 t2 d2 d3 d4 t)
qed

lemma equation_line_iff:
  "equation_line l = Some (t, vs)
     \<longleftrightarrow> (\<exists>rhs. equation_shape t rhs (strip l) \<and> vs = var_findall None rhs)"
proof (cases "assign_match (strip l)")
  case None
  then show ?thesis
    using assign_match_iff [of "strip l"] by (auto simp: equation_line_def)
next
  case (Some t')
  then have r: "rhs_of (strip l) = Inr (drop 1 (dropWhile (\<lambda>c. c \<noteq> 61) (strip l)))"
    by (intro rhs_of_total assign_match_line)
  show ?thesis
    unfolding assign_match_iff [symmetric] using Some r by (auto simp: equation_line_def)
qed

lemma line_nodes_spec:
  "line_nodes l
     = {v. \<exists>t rhs. equation_shape t rhs (strip l) \<and> (v = t \<or> variable_occurs v rhs)}"
proof (cases "equation_line l")
  case None
  then have "\<not> equation_shape t rhs (strip l)" for t rhs
    using equation_line_iff [of l t "var_findall None rhs"] by auto
  with None show ?thesis by (simp add: line_nodes_def)
next
  case (Some m)
  obtain t vs where m: "m = (t, vs)" by (cases m)
  with Some have "equation_line l = Some (t, vs)" by simp
  then obtain rhs where e: "equation_shape t rhs (strip l)" and vs: "vs = var_findall None rhs"
    unfolding equation_line_iff by blast
  have u: "t' = t \<and> rhs' = rhs" if "equation_shape t' rhs' (strip l)" for t' rhs'
    using that e unfolding assign_match_iff [symmetric] by simp
  have "line_nodes l = insert t {v. variable_occurs v rhs}"
    using Some m vs by (simp add: line_nodes_def var_findall_variable_occurs)
  also have "\<dots> = {v. \<exists>t rhs. equation_shape t rhs (strip l) \<and> (v = t \<or> variable_occurs v rhs)}"
    using e u by blast
  finally show ?thesis .
qed

lemma line_edges_spec:
  "line_edges l
     = {(t, v). \<exists>rhs. equation_shape t rhs (strip l) \<and> variable_occurs v rhs \<and> v \<noteq> t}"
proof (cases "equation_line l")
  case None
  then have "\<not> equation_shape t rhs (strip l)" for t rhs
    using equation_line_iff [of l t "var_findall None rhs"] by auto
  with None show ?thesis by (simp add: line_edges_def)
next
  case (Some m)
  obtain t vs where m: "m = (t, vs)" by (cases m)
  with Some have "equation_line l = Some (t, vs)" by simp
  then obtain rhs where e: "equation_shape t rhs (strip l)" and vs: "vs = var_findall None rhs"
    unfolding equation_line_iff by blast
  have u: "t' = t \<and> rhs' = rhs" if "equation_shape t' rhs' (strip l)" for t' rhs'
    using that e unfolding assign_match_iff [symmetric] by simp
  have "line_edges l = {(t, v) |v. variable_occurs v rhs \<and> v \<noteq> t}"
    using Some m vs var_findall_variable_occurs [of rhs] by (auto simp: line_edges_def)
  also have "\<dots> = {(t, v). \<exists>rhs. equation_shape t rhs (strip l) \<and> variable_occurs v rhs \<and> v \<noteq> t}"
    using e u by blast
  finally show ?thesis .
qed

lemma no_equation_shape: "assign_match line = None \<Longrightarrow> \<not> equation_shape t rhs line"
  using assign_match_iff [of line t rhs] by auto

lemmas ev_dep = py_simps strip_def isspace_def assign_match_def var_match_def lit_def rep1_def
  rhs_of_def head_def word_boundary_def add_var_def var_findall.simps ascii_classes

lemma example_lines:
  "splitlines example_system = [py ''x1 = x2'', py ''x2 = x1 + x3'', py ''x3 = x2 + x1'']"
  by (simp add: example_system_def py_simps splitlines.simps is_linebreak_def after_break_def)

lemma example_graph:
  "dependency_graph example_system
     = Inr \<lparr>edges = {(py ''x1'', py ''x2''), (py ''x2'', py ''x1''), (py ''x2'', py ''x3''),
                     (py ''x3'', py ''x2''), (py ''x3'', py ''x1'')},
            nodes = {py ''x1'', py ''x2'', py ''x3''}\<rparr>"
  unfolding dependency_graph_def example_lines
  by (simp add: scan_line_def ev_dep) (auto simp: py_simps)

section \<open>Properties of the canonicalizer\<close>

lemma classify_simps:
  "is_closing l \<Longrightarrow> classify st l = st\<lparr>closing_line := l\<rparr>"
  "\<not> is_closing l \<Longrightarrow> is_edge l \<Longrightarrow> classify st l = st\<lparr>edge_lines := edge_lines st @ [l]\<rparr>"
  "\<not> is_closing l \<Longrightarrow> \<not> is_edge l \<Longrightarrow> classify st l = st\<lparr>prefix_lines := prefix_lines st @ [l]\<rparr>"
  by (simp_all add: classify_def is_closing_def is_edge_def)

lemma foldl_classify:
  "foldl classify st ls =
     \<lparr>edge_lines = edge_lines st @ filter (\<lambda>l. \<not> is_closing l \<and> is_edge l) ls,
      prefix_lines = prefix_lines st @ filter (\<lambda>l. \<not> is_closing l \<and> \<not> is_edge l) ls,
      closing_line = (if filter is_closing ls = [] then closing_line st
                      else last (filter is_closing ls))\<rparr>"
proof (induction ls arbitrary: st)
  case Nil
  show ?case by simp
next
  case (Cons l ls)
  have step: "foldl classify st (l # ls) = foldl classify (classify st l) ls" by simp
  show ?case
  proof (cases "is_closing l")
    case True
    then show ?thesis unfolding step Cons.IH by (simp add: classify_simps)
  next
    case False
    then show ?thesis unfolding step Cons.IH by (cases "is_edge l") (simp_all add: classify_simps)
  qed
qed

lemma edge_match_quote: "edge_match s = Some g \<Longrightarrow> \<exists>r. s = 34 # r"
  by (auto simp: edge_match_def lit_Some py_simps split: bind_splits)

lemma edge_match_label:
  "edge_match s = Some g \<Longrightarrow> g \<noteq> [] \<and> (\<forall>c\<in>set g. is_label_char c)"
proof -
  assume "edge_match s = Some g"
  then obtain s1 where "g \<noteq> []" "g = takeWhile is_label_char s1"
    by (auto simp: edge_match_def rep1_Some split: bind_splits)
  then show ?thesis by (auto dest: set_takeWhileD)
qed

lemma edge_search_quote: "edge_search s = Some g \<Longrightarrow> 34 \<in> set s"
  by (induction s) (auto split: option.splits dest: edge_match_quote)

lemma edge_search_label:
  "edge_search s = Some g \<Longrightarrow> g \<noteq> [] \<and> (\<forall>c\<in>set g. is_label_char c)"
  by (induction s) (auto split: option.splits dest: edge_match_label)

lemma closing_not_edge: "is_closing l \<Longrightarrow> \<not> is_edge l"
proof
  assume c: "is_closing l" and e: "is_edge l"
  then obtain g where "edge_search l = Some g" by (auto simp: is_edge_def)
  then have "34 \<in> set l" by (rule edge_search_quote)
  then have "isspace 34 \<or> 34 \<in> set (strip l)" by (rule strip_chars)
  then show False using c by (simp add: is_closing_def isspace_def py_simps)
qed

lemma closing_nonempty: "is_closing l \<Longrightarrow> l \<noteq> []"
  by (auto simp: is_closing_def strip_def py_simps)

lemma key_for_line_total: "key_for_line l = Inr (line_key l)"
proof (cases "edge_search l")
  case None
  then show ?thesis by (simp add: key_for_line_def line_key_def)
next
  case (Some raw)
  then have lab: "\<forall>c\<in>set raw. is_label_char c" by (simp add: edge_search_label)
  define bits where "bits = filter (\<lambda>c. c \<noteq> 32) raw"
  have "\<forall>c\<in>set bits. c = 48 \<or> c = 49"
    using lab by (auto simp: bits_def is_label_char_def)
  then have i: "int_digits2 0 bits = Inr (binary_value raw)"
    by (simp add: int_digits2_bits binary_value_def bits_def)
  have w: "count_list bits 49 = hamming_weight raw"
    by (simp add: count_list_filter_eq hamming_weight_def bits_def conj_commute cong: conj_cong)
  have e: "bits = [] \<Longrightarrow> binary_value raw = 0"
    by (simp add: binary_value_def bits_def)
  show ?thesis
  proof (cases "bits = []")
    case True
    with w have "hamming_weight raw = 0" by simp
    with True Some e show ?thesis
      by (simp add: key_for_line_def line_key_def Let_def flip: bits_def)
  next
    case False
    with Some i w show ?thesis
      by (simp add: key_for_line_def line_key_def int_base2_def Let_def flip: bits_def)
  qed
qed

lemma filter_edge_not_closing:
  "filter (\<lambda>l. \<not> is_closing l \<and> is_edge l) ls = filter is_edge ls"
  by (rule filter_cong) (auto dest: closing_not_edge)

lemma last_closing_nonempty:
  "filter is_closing ls \<noteq> [] \<Longrightarrow> last (filter is_closing ls) \<noteq> []"
proof -
  assume ne: "filter is_closing ls \<noteq> []"
  then have "last (filter is_closing ls) \<in> set (filter is_closing ls)" by (rule last_in_set)
  then show ?thesis by (auto dest: closing_nonempty)
qed

lemma last_closing_is_closing:
  "filter is_closing ls \<noteq> [] \<Longrightarrow> is_closing (last (filter is_closing ls))"
proof -
  assume "filter is_closing ls \<noteq> []"
  then have "last (filter is_closing ls) \<in> set (filter is_closing ls)" by (rule last_in_set)
  then show ?thesis by simp
qed

lemma new_lines_canon: "new_lines ls = Inr (canon ls)"
  by (simp add: new_lines_def Let_def foldl_classify sorted_key_total [of key_for_line line_key, OF key_for_line_total]
      filter_edge_not_closing canon_def last_closing_nonempty)

lemma reorder_canon: "reorder_statespace_dot src = Inr (join_nl (canon (splitlines src)))"
  by (simp add: reorder_statespace_dot_def new_lines_canon)

lemma mset_three_way:
  assumes "\<And>l. c l \<Longrightarrow> \<not> e l"
  shows "mset (filter (\<lambda>l. \<not> c l \<and> \<not> e l) ls) + mset (filter e ls) + mset (filter c ls) = mset ls"
  using assms by (induction ls) auto

lemma mset_canon:
  "mset (canon ls) + mset (butlast (filter is_closing ls)) = mset ls"
proof -
  have "mset (if filter is_closing ls = [] then [] else [last (filter is_closing ls)])
          + mset (butlast (filter is_closing ls)) = mset (filter is_closing ls)"
    by (cases "filter is_closing ls" rule: rev_cases) simp_all
  then have "mset (canon ls) + mset (butlast (filter is_closing ls))
               = mset (filter (\<lambda>l. \<not> is_closing l \<and> \<not> is_edge l) ls)
                 + mset (filter is_edge ls) + mset (filter is_closing ls)"
    by (simp add: canon_def add.assoc)
  also have "\<dots> = mset ls"
    by (rule mset_three_way) (rule closing_not_edge)
  finally show ?thesis .
qed

lemma set_canon: "set (canon ls) \<subseteq> set ls"
proof -
  have "set_mset (mset (canon ls)) \<subseteq> set_mset (mset ls)"
    by (metis mset_canon mset_subset_eq_add_left set_mset_mono)
  then show ?thesis by simp
qed

lemma canon_closing:
  "filter is_closing ls \<noteq> [] \<Longrightarrow>
     canon ls = (filter (\<lambda>l. \<not> is_closing l \<and> \<not> is_edge l) ls @ sort_key line_key (filter is_edge ls))
                @ [last (filter is_closing ls)]"
  by (simp add: canon_def)

lemma canon_no_closing:
  "filter is_closing ls = [] \<Longrightarrow>
     canon ls = filter (\<lambda>l. \<not> is_closing l \<and> \<not> is_edge l) ls @ sort_key line_key (filter is_edge ls)"
  by (simp add: canon_def)

lemma kept_not_closing:
  "l \<in> set (filter (\<lambda>l. \<not> is_closing l \<and> \<not> is_edge l) ls @ sort_key line_key (filter is_edge ls))
     \<Longrightarrow> \<not> is_closing l"
  by (auto dest: closing_not_edge)

lemma mset_kept:
  "mset (filter (\<lambda>l. \<not> is_closing l \<and> \<not> is_edge l) ls @ sort_key line_key (filter is_edge ls))
     = mset (filter (\<lambda>l. \<not> is_closing l) ls)"
proof -
  have "mset (filter (\<lambda>l. \<not> is_closing l \<and> \<not> is_edge l) ls) + mset (filter is_edge ls)
          = mset (filter (\<lambda>l. \<not> is_closing l) ls)"
    by (induction ls) (auto dest: closing_not_edge)
  then show ?thesis by simp
qed

lemma canon_lines_no_break:
  "l \<in> set (canon (splitlines src)) \<Longrightarrow> c \<in> set l \<Longrightarrow> \<not> is_linebreak c"
  using set_canon splitlines_no_break by blast

lemma splitlines_reorder:
  "splitlines (join_nl (canon (splitlines src)))
     = (if canon (splitlines src) \<noteq> [] \<and> last (canon (splitlines src)) = []
        then butlast (canon (splitlines src)) else canon (splitlines src))"
  by (rule splitlines_join) (blast dest: canon_lines_no_break)

lemma filter_edge_canon: "filter is_edge (canon ls) = sort_key line_key (filter is_edge ls)"
proof -
  have a: "filter is_edge (filter (\<lambda>l. \<not> is_closing l \<and> \<not> is_edge l) ls) = []"
    by (simp add: filter_empty_conv)
  have b: "filter is_edge (sort_key line_key (filter is_edge ls))
             = sort_key line_key (filter is_edge ls)"
    by (simp add: filter_sort)
  have c: "filter is_closing ls \<noteq> [] \<Longrightarrow> \<not> is_edge (last (filter is_closing ls))"
    by (blast dest: last_closing_is_closing closing_not_edge)
  show ?thesis
    unfolding canon_def filter_append a b using c by simp
qed

lemma filter_closing_canon:
  "filter is_closing (canon ls)
     = (if filter is_closing ls = [] then [] else [last (filter is_closing ls)])"
proof -
  have a: "filter is_closing (filter (\<lambda>l. \<not> is_closing l \<and> \<not> is_edge l) ls) = []"
    by (auto simp: filter_empty_conv)
  have b: "filter is_closing (sort_key line_key (filter is_edge ls)) = []"
    by (auto simp: filter_empty_conv dest: closing_not_edge)
  show ?thesis
    unfolding canon_def filter_append a b by (simp add: last_closing_is_closing)
qed

lemma filter_prefix_canon:
  "filter (\<lambda>l. \<not> is_closing l \<and> \<not> is_edge l) (canon ls)
     = filter (\<lambda>l. \<not> is_closing l \<and> \<not> is_edge l) ls"
proof -
  have b: "filter (\<lambda>l. \<not> is_closing l \<and> \<not> is_edge l) (sort_key line_key (filter is_edge ls)) = []"
    by (simp add: filter_empty_conv)
  show ?thesis
    unfolding canon_def filter_append b by (simp add: last_closing_is_closing)
qed

lemma canon_idem: "canon (canon ls) = canon ls"
proof -
  have "sort_key line_key (sort_key line_key (filter is_edge ls))
          = sort_key line_key (filter is_edge ls)"
    by (rule sort_key_id_if_sorted) (rule sorted_sort_key)
  then show ?thesis
    by (simp add: canon_def [of "canon ls"] filter_edge_canon filter_closing_canon filter_prefix_canon)
       (simp add: canon_def)
qed

lemma length_join_canon: "length (join_nl (canon X)) \<le> length (join_nl X)"
proof -
  define B where "B = butlast (filter is_closing X)"
  have m: "mset X = mset (canon X) + mset B"
    using mset_canon [of X] by (simp add: B_def)
  have "sum_list (map length X) = sum_mset (image_mset length (mset X))"
    by (metis mset_map sum_mset_sum_list)
  also have "\<dots> = sum_mset (image_mset length (mset (canon X))) + sum_mset (image_mset length (mset B))"
    by (simp add: m)
  also have "sum_mset (image_mset length (mset (canon X))) = sum_list (map length (canon X))"
    by (metis mset_map sum_mset_sum_list)
  finally have s: "sum_list (map length (canon X)) \<le> sum_list (map length X)" by simp
  have "length X = length (canon X) + length B"
    using arg_cong [OF m, of size] by simp
  then have "length (canon X) \<le> length X" by simp
  with s show ?thesis unfolding length_join_nl by linarith
qed

lemma line_key_source_label:
  "line_key l = (hamming_weight (source_label l), binary_value (source_label l))"
  by (simp add: line_key_def source_label_def hamming_weight_def binary_value_def split: option.splits)

lemma line_key_le: "line_key a \<le> line_key b \<longleftrightarrow> key_le a b"
  by (auto simp: line_key_source_label key_le_def)

lemma sorted_edge_block: "sorted_wrt key_le (sort_key line_key E)"
proof -
  have "sorted (map line_key (sort_key line_key E))" by (rule sorted_sort_key)
  then show ?thesis by (simp add: sorted_map line_key_le)
qed

lemma empty_not_edge: "\<not> is_edge []"
  by (simp add: is_edge_def edge_match_def lit_def py_simps)

lemma filter_edge_output:
  "filter is_edge (splitlines (join_nl (canon (splitlines src))))
     = sort_key line_key (filter is_edge (splitlines src))"
proof -
  define M where "M = canon (splitlines src)"
  have "filter is_edge (if M \<noteq> [] \<and> last M = [] then butlast M else M) = filter is_edge M"
  proof (cases "M \<noteq> [] \<and> last M = []")
    case True
    then have "M = butlast M @ [[]]" by (metis append_butlast_last_id)
    then have "filter is_edge M = filter is_edge (butlast M) @ filter is_edge [[]]"
      by (metis filter_append)
    with True show ?thesis by (simp add: empty_not_edge)
  next
    case False
    then show ?thesis by auto
  qed
  moreover have "splitlines (join_nl M) = (if M \<noteq> [] \<and> last M = [] then butlast M else M)"
    unfolding M_def by (rule splitlines_reorder)
  moreover have "filter is_edge M = sort_key line_key (filter is_edge (splitlines src))"
    unfolding M_def by (rule filter_edge_canon)
  ultimately show ?thesis
    unfolding M_def by (simp only:)
qed

lemma edge_match_iff: "edge_match s = Some g \<longleftrightarrow> edge_occurrence g s"
proof
  assume "edge_match s = Some g"
  then obtain s1 s3 s4 s5 s7 where
    s: "s = 34 # s1" and g: "g = takeWhile is_label_char s1" "g \<noteq> []"
    and s2: "dropWhile is_label_char s1 = 34 # s3"
    and s3: "dropWhile isspace s3 = 45 # 62 # s4"
    and s4: "dropWhile isspace s4 = 34 # s5"
    and g2: "takeWhile is_label_char s5 \<noteq> []"
    and s6: "dropWhile is_label_char s5 = 34 # s7"
    by (auto simp: edge_match_def lit_Some rep1_Some py_simps split: bind_splits)
  have "s1 = g @ 34 # s3"
    using g(1) s2 takeWhile_dropWhile_id [of is_label_char s1] by simp
  moreover have "s3 = takeWhile isspace s3 @ 45 # 62 # s4"
    using s3 takeWhile_dropWhile_id [of isspace s3] by simp
  moreover have "s4 = takeWhile isspace s4 @ 34 # s5"
    using s4 takeWhile_dropWhile_id [of isspace s4] by simp
  moreover have "s5 = takeWhile is_label_char s5 @ 34 # s7"
    using s6 takeWhile_dropWhile_id [of is_label_char s5] by simp
  ultimately have
    "s = py [CHR 0x22] @ g @ py [CHR 0x22] @ takeWhile isspace s3 @ py ''->'' @ takeWhile isspace s4
           @ py [CHR 0x22] @ takeWhile is_label_char s5 @ py [CHR 0x22] @ s7"
    using s by (simp add: py_simps)
  then show "edge_occurrence g s"
    unfolding edge_occurrence_def using g g2 list_all_takeWhile by blast
next
  assume "edge_occurrence g s"
  then obtain w1 w2 g2 post where
    s: "s = 34 # g @ 34 # w1 @ 45 # 62 # w2 @ 34 # g2 @ 34 # post"
    and g: "g \<noteq> []" "list_all is_label_char g"
    and w: "list_all isspace w1" "list_all isspace w2"
    and g2: "g2 \<noteq> []" "list_all is_label_char g2"
    by (auto simp: edge_occurrence_def py_simps)
  show "edge_match s = Some g"
    unfolding edge_match_def s
    using g g2
    by (simp add: lit_def rep1_def py_simps takeWhile_run dropWhile_run class_facts g w)
qed

lemma edge_search_leftmost:
  "edge_search l = Some g \<Longrightarrow>
     \<exists>pre rest. l = pre @ rest \<and> edge_match rest = Some g
       \<and> (\<forall>pre' rest'. l = pre' @ rest' \<and> length pre' < length pre \<longrightarrow> edge_match rest' = None)"
proof (induction l)
  case Nil
  then show ?case by simp
next
  case (Cons c s)
  show ?case
  proof (cases "edge_match (c # s)")
    case (Some g')
    with Cons.prems have "edge_match (c # s) = Some g" by simp
    then have "c # s = [] @ (c # s) \<and> edge_match (c # s) = Some g
       \<and> (\<forall>pre' rest'. c # s = pre' @ rest' \<and> length pre' < length ([]::pystr) \<longrightarrow> edge_match rest' = None)"
      by simp
    then show ?thesis by blast
  next
    case None
    with Cons.prems have "edge_search s = Some g" by simp
    with Cons.IH obtain pre rest where
      p: "s = pre @ rest" "edge_match rest = Some g"
      and m: "\<forall>pre' rest'. s = pre' @ rest' \<and> length pre' < length pre \<longrightarrow> edge_match rest' = None"
      by blast
    have "\<forall>pre' rest'. c # s = pre' @ rest' \<and> length pre' < length (c # pre) \<longrightarrow> edge_match rest' = None"
    proof (intro allI impI)
      fix pre' rest'
      assume a: "c # s = pre' @ rest' \<and> length pre' < length (c # pre)"
      show "edge_match rest' = None"
      proof (cases pre')
        case Nil
        with a None show ?thesis by simp
      next
        case (Cons d p')
        with a have "s = p' @ rest' \<and> length p' < length pre" by simp
        with m show ?thesis by blast
      qed
    qed
    with p have "c # s = (c # pre) @ rest \<and> edge_match rest = Some g
       \<and> (\<forall>pre' rest'. c # s = pre' @ rest' \<and> length pre' < length (c # pre) \<longrightarrow> edge_match rest' = None)"
      by simp
    then show ?thesis by blast
  qed
qed

lemma edge_search_None:
  "edge_search l = None \<Longrightarrow> l = pre @ rest \<Longrightarrow> edge_match rest = None"
proof (induction l arbitrary: pre)
  case Nil
  then show ?case by simp
next
  case (Cons c s)
  from Cons.prems(1) have n: "edge_match (c # s) = None" "edge_search s = None"
    by (simp_all split: option.splits)
  show ?case
  proof (cases pre)
    case Nil
    with Cons.prems n show ?thesis by simp
  next
    case (Cons d p')
    with Cons.prems Cons.IH n show ?thesis by simp
  qed
qed

lemma canon_plain:
  "filter is_closing ls = [] \<Longrightarrow> filter is_edge ls = [] \<Longrightarrow> canon ls = ls"
proof -
  assume c: "filter is_closing ls = []" and e: "filter is_edge ls = []"
  then have "filter (\<lambda>l. \<not> is_closing l \<and> \<not> is_edge l) ls = ls"
    by (simp add: filter_empty_conv)
  with c e show ?thesis by (simp add: canon_def)
qed

lemma canon_ends_empty:
  "(butlast (canon ls) \<noteq> [] \<and> last (canon ls) = [])
     \<longleftrightarrow> (filter is_closing ls = [] \<and> filter is_edge ls = [] \<and> butlast ls \<noteq> [] \<and> last ls = [])"
proof
  assume a: "butlast (canon ls) \<noteq> [] \<and> last (canon ls) = []"
  have c: "filter is_closing ls = []"
  proof (rule ccontr)
    assume n: "filter is_closing ls \<noteq> []"
    then have "last (canon ls) = last (filter is_closing ls)" by (simp add: canon_closing)
    with a last_closing_nonempty [OF n] show False by simp
  qed
  have e: "filter is_edge ls = []"
  proof (rule ccontr)
    assume n: "filter is_edge ls \<noteq> []"
    then have s: "sort_key line_key (filter is_edge ls) \<noteq> []"
      by (metis length_sort list.size(3) length_0_conv)
    then have "last (canon ls) = last (sort_key line_key (filter is_edge ls))"
      using c by (simp add: canon_no_closing)
    moreover have "last (sort_key line_key (filter is_edge ls)) \<in> set (sort_key line_key (filter is_edge ls))"
      using s by (rule last_in_set)
    ultimately have "is_edge (last (canon ls))" by simp
    with a empty_not_edge show False by simp
  qed
  from c e have "canon ls = ls" by (rule canon_plain)
  with a c e show "filter is_closing ls = [] \<and> filter is_edge ls = [] \<and> butlast ls \<noteq> [] \<and> last ls = []"
    by simp
next
  assume a: "filter is_closing ls = [] \<and> filter is_edge ls = [] \<and> butlast ls \<noteq> [] \<and> last ls = []"
  then have "canon ls = ls" by (simp add: canon_plain)
  with a show "butlast (canon ls) \<noteq> [] \<and> last (canon ls) = []" by simp
qed

lemmas ev = py_simps edge_match_def lit_def rep1_def is_label_char_def isspace_def
  key_for_line_def int_base2_def hamming_weight_def binary_value_def

lemma splitlines_sample_dot:
  \<open>splitlines sample_dot =
     [py ''digraph G {'', py ''"1 1" -> "1 0";'', py ''"0 1" -> "1 1";'',
      py ''"1 0" -> "0 1";'', py ''"0 0" -> "0 0";'', py ''}'']\<close>
  by (simp add: sample_dot_def py_simps splitlines.simps is_linebreak_def after_break_def)

lemma closing_sample_dot: "filter is_closing (splitlines sample_dot) = [py ''}'']"
  by (simp add: splitlines_sample_dot is_closing_def strip_def py_simps isspace_def)

lemma sample_classes:
  \<open>filter is_closing (splitlines sample_dot) = [py ''}'']\<close>
  \<open>filter is_edge (splitlines sample_dot)
     = [py ''"1 1" -> "1 0";'', py ''"0 1" -> "1 1";'', py ''"1 0" -> "0 1";'', py ''"0 0" -> "0 0";'']\<close>
  \<open>filter (\<lambda>l. \<not> is_closing l \<and> \<not> is_edge l) (splitlines sample_dot) = [py ''digraph G {'']\<close>
  unfolding splitlines_sample_dot
  by (simp_all add: is_closing_def is_edge_def strip_def ev)

lemma sample_keys:
  \<open>line_key (py ''"1 1" -> "1 0";'') = (2, 3)\<close>
  \<open>line_key (py ''"0 1" -> "1 1";'') = (1, 1)\<close>
  \<open>line_key (py ''"1 0" -> "0 1";'') = (1, 2)\<close>
  \<open>line_key (py ''"0 0" -> "0 0";'') = (0, 0)\<close>
  by (simp_all add: line_key_def ev)

lemma canon_sample:
  \<open>canon (splitlines sample_dot)
     = [py ''digraph G {'', py ''"0 0" -> "0 0";'', py ''"0 1" -> "1 1";'',
        py ''"1 0" -> "0 1";'', py ''"1 1" -> "1 0";'', py ''}'']\<close>
  unfolding canon_def sample_classes by (simp add: sample_keys)

section \<open>Claims about the label formatter\<close>

text \<open>
  C5 (as amended). On \<open>x\<close> followed by one or more of the digits \<open>0\<close> .. \<open>9\<close> the result
  is \<open>x\<close> followed by the subscript glyph of each digit, in order. On \<open>x\<close> followed by
  one or more decimal digits of any script (what \<open>\d\<close> matches) each of \<open>0\<close> .. \<open>9\<close>
  becomes its subscript glyph and every other digit stays. Every other string is returned
  unchanged. (The function is a HOL function: it has one result on every string.)
\<close>

theorem subscript_label_spec:
  "(ds \<noteq> [] \<and> list_all is_ascii_digit ds \<longrightarrow>
      subscript_label (py ''x'' @ ds) = py ''x'' @ map subscript_glyph ds
      \<and> list_all is_subscript (map subscript_glyph ds))
   \<and> (ds \<noteq> [] \<and> list_all is_decimal ds \<longrightarrow>
      subscript_label (py ''x'' @ ds)
        = py ''x'' @ map (\<lambda>d. if is_ascii_digit d then subscript_glyph d else d) ds)
   \<and> (\<not> (\<exists>ds. s = py ''x'' @ ds \<and> ds \<noteq> [] \<and> list_all is_decimal ds) \<longrightarrow> subscript_label s = s)"
proof (intro conjI impI)
  assume a: "ds \<noteq> [] \<and> list_all is_ascii_digit ds"
  then have "list_all is_decimal ds"
    by (simp add: list_all_iff ascii_digit_decimal)
  with a have "subscript_label (py ''x'' @ ds)
       = py ''x'' @ map (\<lambda>d. if is_ascii_digit d then subscript_glyph d else d) ds"
    by (simp add: subscript_label_match)
  also have "map (\<lambda>d. if is_ascii_digit d then subscript_glyph d else d) ds = map subscript_glyph ds"
    using a by (simp add: list_all_iff)
  finally show "subscript_label (py ''x'' @ ds) = py ''x'' @ map subscript_glyph ds" .
next
  assume "ds \<noteq> [] \<and> list_all is_ascii_digit ds"
  then show "list_all is_subscript (map subscript_glyph ds)"
    by (auto simp: list_all_iff is_subscript_def subscript_glyph_def is_ascii_digit_def)
next
  assume "ds \<noteq> [] \<and> list_all is_decimal ds"
  then show "subscript_label (py ''x'' @ ds)
        = py ''x'' @ map (\<lambda>d. if is_ascii_digit d then subscript_glyph d else d) ds"
    by (simp add: subscript_label_match)
next
  assume "\<not> (\<exists>ds. s = py ''x'' @ ds \<and> ds \<noteq> [] \<and> list_all is_decimal ds)"
  then have "fullmatch_x_digits s = None"
    using fullmatch_x_digits_iff [of s] by (cases "fullmatch_x_digits s") auto
  then show "subscript_label s = s" by (simp add: subscript_label_def)
qed

theorem subscript_label_spec_witness:
  "subscript_label (py ''x12'') = [120, 8321, 8322] \<and> subscript_label (py ''state'') = py ''state''"
proof -
  have "py ''12'' \<noteq> [] \<and> list_all is_ascii_digit (py ''12'')"
    by (simp add: py_simps is_ascii_digit_def)
  moreover have "\<not> (\<exists>ds. py ''state'' = py ''x'' @ ds \<and> ds \<noteq> [] \<and> list_all is_decimal ds)"
    by (simp add: py_simps)
  ultimately show ?thesis
    using subscript_label_spec [of "py ''12''" "py ''state''"]
    by (simp add: py_simps subscript_glyph_def)
qed

text \<open>
  C5 as stated fails on \<open>x\<close>, \<open>1\<close>, ARABIC-INDIC DIGIT ONE (U+0661): the pattern matches,
  the string is not \<open>x\<close> followed by digits \<open>0\<close> .. \<open>9\<close>, and it is not returned unchanged;
  nor is the result \<open>x\<close> followed by subscript glyphs only.
\<close>

theorem subscript_label_nonascii_digit:
  "fullmatch_x_digits [120, 49, 1633] = Some [49, 1633]
   \<and> \<not> list_all is_ascii_digit [49, 1633]
   \<and> subscript_label [120, 49, 1633] = [120, 8321, 1633]
   \<and> subscript_label [120, 49, 1633] \<noteq> [120, 49, 1633]
   \<and> \<not> list_all is_subscript (tl (subscript_label [120, 49, 1633]))"
  by (simp add: subscript_label_def fullmatch_x_digits_def lit_def rep1_def py_simps
      is_decimal_def decimal_ranges_def is_ascii_digit_def subs_def is_subscript_def)

section \<open>Claims about the dependency extractor\<close>

text \<open>
  C3. The loop over the lines never fails, and it leaves in \<open>nodes\<close> the target and the
  variables occurring (between word boundaries) in the right-hand side of every line that,
  stripped, has the equation shape; in \<open>edges\<close> the pairs of such a target and such a
  variable other than the target. On the example of the specification the nodes are
  \<open>x1\<close>, \<open>x2\<close>, \<open>x3\<close> and the edges are the five pairs listed there.
\<close>

theorem dependency_graph_spec:
  "(\<exists>g. dependency_graph text = Inr g
       \<and> nodes g = {v. \<exists>l\<in>set (splitlines text). \<exists>t rhs.
                        equation_shape t rhs (strip l) \<and> (v = t \<or> variable_occurs v rhs)}
       \<and> edges g = {(t, v). \<exists>l\<in>set (splitlines text). \<exists>rhs.
                        equation_shape t rhs (strip l) \<and> variable_occurs v rhs \<and> v \<noteq> t})
   \<and> dependency_graph example_system
       = Inr \<lparr>edges = {(py ''x1'', py ''x2''), (py ''x2'', py ''x1''), (py ''x2'', py ''x3''),
                       (py ''x3'', py ''x2''), (py ''x3'', py ''x1'')},
              nodes = {py ''x1'', py ''x2'', py ''x3''}\<rparr>"
proof (rule conjI)
  have n: "(\<Union>l\<in>set (splitlines text). line_nodes l)
             = {v. \<exists>l\<in>set (splitlines text). \<exists>t rhs.
                      equation_shape t rhs (strip l) \<and> (v = t \<or> variable_occurs v rhs)}"
    unfolding line_nodes_spec by blast
  have e: "(\<Union>l\<in>set (splitlines text). line_edges l)
             = {(t, v). \<exists>l\<in>set (splitlines text). \<exists>rhs.
                      equation_shape t rhs (strip l) \<and> variable_occurs v rhs \<and> v \<noteq> t}"
    unfolding line_edges_spec by blast
  show "\<exists>g. dependency_graph text = Inr g
       \<and> nodes g = {v. \<exists>l\<in>set (splitlines text). \<exists>t rhs.
                        equation_shape t rhs (strip l) \<and> (v = t \<or> variable_occurs v rhs)}
       \<and> edges g = {(t, v). \<exists>l\<in>set (splitlines text). \<exists>rhs.
                        equation_shape t rhs (strip l) \<and> variable_occurs v rhs \<and> v \<noteq> t}"
    unfolding dependency_graph_eq n e by simp
qed (rule example_graph)

theorem dependency_graph_spec_witness:
  "\<exists>g. dependency_graph example_system = Inr g
       \<and> nodes g = {v. \<exists>l\<in>set (splitlines example_system). \<exists>t rhs.
                        equation_shape t rhs (strip l) \<and> (v = t \<or> variable_occurs v rhs)}
       \<and> edges g = {(t, v). \<exists>l\<in>set (splitlines example_system). \<exists>rhs.
                        equation_shape t rhs (strip l) \<and> variable_occurs v rhs \<and> v \<noteq> t}"
  using dependency_graph_spec [of example_system] by (rule conjunct1)

text \<open>
  C4. No edge leads from a variable to itself, whatever the input.
\<close>

theorem no_self_loops:
  "\<exists>g. dependency_graph text = Inr g \<and> (\<forall>v. (v, v) \<notin> edges g)"
  by (auto simp: dependency_graph_eq line_edges_def split: option.splits)

theorem no_self_loops_witness:
  "dependency_graph (py ''x1 = x1 + x2'')
     = Inr \<lparr>edges = {(py ''x1'', py ''x2'')}, nodes = {py ''x1'', py ''x2''}\<rparr>
   \<and> (\<exists>g. dependency_graph (py ''x1 = x1 + x2'') = Inr g \<and> (\<forall>v. (v, v) \<notin> edges g))"
proof -
  have l: "splitlines (py ''x1 = x1 + x2'') = [py ''x1 = x1 + x2'']"
    by (simp add: py_simps splitlines.simps is_linebreak_def after_break_def)
  have "dependency_graph (py ''x1 = x1 + x2'')
     = Inr \<lparr>edges = {(py ''x1'', py ''x2'')}, nodes = {py ''x1'', py ''x2''}\<rparr>"
    unfolding dependency_graph_def l
    by (simp add: scan_line_def ev_dep) (auto simp: py_simps)
  then show ?thesis using no_self_loops [of "py ''x1 = x1 + x2''"] by blast
qed

text \<open>
  C8. When no line of the input, stripped, has the equation shape, both sets stay empty
  and the result is the empty string: no error, no graph skeleton.
\<close>

theorem no_equations_empty_result:
  assumes "\<forall>l\<in>set (splitlines text). \<forall>t rhs. \<not> equation_shape t rhs (strip l)"
  shows "dependency_graph text = Inr \<lparr>edges = {}, nodes = {}\<rparr> \<and> build_dependency_dot text = Inr []"
proof -
  from assms have "\<forall>l\<in>set (splitlines text). line_nodes l = {} \<and> line_edges l = {}"
    unfolding line_nodes_spec line_edges_spec by blast
  then have "dependency_graph text = Inr \<lparr>edges = {}, nodes = {}\<rparr>"
    by (simp add: dependency_graph_eq)
  then show ?thesis by (simp add: build_dependency_dot_def)
qed

theorem no_equations_empty_result_witness:
  "list_all (\<lambda>l. \<forall>t rhs. \<not> equation_shape t rhs (strip l)) (splitlines header_only)
   \<and> dependency_graph header_only = Inr \<lparr>edges = {}, nodes = {}\<rparr>
   \<and> build_dependency_dot header_only = Inr []"
proof -
  have l: "splitlines header_only
     = [py ''NUMBER OF VARIABLES: 3'', py ''NUMBER OF STATES: 2'', py ''# x1 = x2'', py ''y = x1'']"
    by (simp add: header_only_def py_simps splitlines.simps is_linebreak_def after_break_def)
  have a: "list_all (\<lambda>l. assign_match (strip l) = None) (splitlines header_only)"
    unfolding l by (simp add: ev_dep)
  then have h: "\<forall>l\<in>set (splitlines header_only). \<forall>t rhs. \<not> equation_shape t rhs (strip l)"
    by (simp add: list_all_iff no_equation_shape)
  then have "list_all (\<lambda>l. \<forall>t rhs. \<not> equation_shape t rhs (strip l)) (splitlines header_only)"
    by (simp add: list_all_iff)
  with no_equations_empty_result [OF h] show ?thesis by simp
qed

section \<open>Claims about the canonicalizer\<close>

text \<open>
  C1 (as amended). When the input has at most one closing line, the lines that are joined
  into the output are the lines of the input, each as often as in the input: nothing is
  inserted, deleted or changed, only the order differs. (Read back with \<open>splitlines\<close>, the
  output gives these lines again, but for an empty last line.)
\<close>

theorem reorder_preserves_lines:
  assumes "length (filter is_closing (splitlines src)) \<le> 1"
  shows "\<exists>ls. new_lines (splitlines src) = Inr ls
            \<and> reorder_statespace_dot src = Inr (join_nl ls)
            \<and> mset ls = mset (splitlines src)
            \<and> splitlines (join_nl ls) = (if ls \<noteq> [] \<and> last ls = [] then butlast ls else ls)"
proof -
  from assms have "butlast (filter is_closing (splitlines src)) = []"
    by (cases "filter is_closing (splitlines src)") simp_all
  with mset_canon [of "splitlines src"]
  have "mset (canon (splitlines src)) = mset (splitlines src)" by simp
  then show ?thesis
    using splitlines_reorder [of src] by (simp add: new_lines_canon reorder_canon)
qed

theorem reorder_preserves_lines_witness:
  "length (filter is_closing (splitlines sample_dot)) \<le> 1
   \<and> (\<exists>ls. new_lines (splitlines sample_dot) = Inr ls
          \<and> reorder_statespace_dot sample_dot = Inr (join_nl ls)
          \<and> mset ls = mset (splitlines sample_dot)
          \<and> splitlines (join_nl ls) = (if ls \<noteq> [] \<and> last ls = [] then butlast ls else ls))"
  using reorder_preserves_lines [of sample_dot] by (simp add: closing_sample_dot)

text \<open>
  C1 as stated fails on an input with two closing lines: of the two lines of the input
  only one is in the output.
\<close>

theorem reorder_loses_closing_line:
  "new_lines (splitlines (py ''}\<newline>}'')) = Inr [py ''}'']
   \<and> reorder_statespace_dot (py ''}\<newline>}'') = Inr (py ''}'')
   \<and> mset [py ''}''] \<noteq> mset (splitlines (py ''}\<newline>}''))"
proof -
  have l: "splitlines (py ''}\<newline>}'') = [py ''}'', py ''}'']"
    by (simp add: py_simps splitlines.simps is_linebreak_def after_break_def)
  have s: "strip (py ''}'') = py ''}''"
    by (simp add: strip_def py_simps isspace_def)
  have n: "new_lines [py ''}'', py ''}''] = Inr [py ''}'']"
    by (simp add: new_lines_def classify_def s sorted_key_def) (simp add: py_simps)
  show ?thesis
    by (simp add: reorder_statespace_dot_def l n)
qed

text \<open>
  C2. In the output text the edge lines are in ascending order of the Hamming weight of
  their source label, and of its binary value where the weights are equal; the edge lines of
  one (weight, value) key are in the order they have in the input; and this pair is the key
  the function computes.
\<close>

theorem edge_lines_sorted_stable:
  "\<exists>out. reorder_statespace_dot src = Inr out
     \<and> sorted_wrt key_le (filter is_edge (splitlines out))
     \<and> (\<forall>w v. filter (\<lambda>l. hamming_weight (source_label l) = w \<and> binary_value (source_label l) = v)
                 (filter is_edge (splitlines out))
              = filter (\<lambda>l. hamming_weight (source_label l) = w \<and> binary_value (source_label l) = v)
                 (filter is_edge (splitlines src)))
     \<and> (\<forall>l. key_for_line l = Inr (hamming_weight (source_label l), binary_value (source_label l)))"
proof -
  have st: "filter (\<lambda>l. hamming_weight (source_label l) = w \<and> binary_value (source_label l) = v)
              (sort_key line_key E)
            = filter (\<lambda>l. hamming_weight (source_label l) = w \<and> binary_value (source_label l) = v) E"
    for w v E
    using sort_key_stable [of line_key "(w, v)" E] by (simp add: line_key_source_label)
  have "sorted_wrt key_le (filter is_edge (splitlines (join_nl (canon (splitlines src)))))"
    unfolding filter_edge_output by (rule sorted_edge_block)
  moreover have
    "\<forall>w v. filter (\<lambda>l. hamming_weight (source_label l) = w \<and> binary_value (source_label l) = v)
              (filter is_edge (splitlines (join_nl (canon (splitlines src)))))
           = filter (\<lambda>l. hamming_weight (source_label l) = w \<and> binary_value (source_label l) = v)
              (filter is_edge (splitlines src))"
    unfolding filter_edge_output st by (intro allI refl)
  moreover have
    "\<forall>l. key_for_line l = Inr (hamming_weight (source_label l), binary_value (source_label l))"
    by (simp add: key_for_line_total line_key_source_label)
  ultimately show ?thesis
    using reorder_canon [of src] by blast
qed

theorem edge_lines_sorted_stable_witness:
  \<open>reorder_statespace_dot sample_dot
     = Inr (py ''digraph G {\<newline>"0 0" -> "0 0";\<newline>"0 1" -> "1 1";\<newline>"1 0" -> "0 1";\<newline>"1 1" -> "1 0";\<newline>}'')
   \<and> (\<exists>out. reorder_statespace_dot sample_dot = Inr out
     \<and> sorted_wrt key_le (filter is_edge (splitlines out))
     \<and> (\<forall>w v. filter (\<lambda>l. hamming_weight (source_label l) = w \<and> binary_value (source_label l) = v)
                 (filter is_edge (splitlines out))
              = filter (\<lambda>l. hamming_weight (source_label l) = w \<and> binary_value (source_label l) = v)
                 (filter is_edge (splitlines sample_dot)))
     \<and> (\<forall>l. key_for_line l = Inr (hamming_weight (source_label l), binary_value (source_label l))))\<close>
proof -
  have \<open>reorder_statespace_dot sample_dot
     = Inr (py ''digraph G {\<newline>"0 0" -> "0 0";\<newline>"0 1" -> "1 1";\<newline>"1 0" -> "0 1";\<newline>"1 1" -> "1 0";\<newline>}'')\<close>
    unfolding reorder_canon canon_sample by (simp add: py_simps)
  then show ?thesis
    using edge_lines_sorted_stable [of sample_dot] by blast
qed

text \<open>
  C6 (as amended). Reordering the reordered list of lines changes nothing, and applying
  the function to its own output text gives that text again exactly when the text does not
  end with a newline; it ends with one exactly when the input has no closing line, no edge
  line, and at least two lines of which the last is empty.
\<close>

theorem reorder_idempotent_iff:
  "\<exists>ls out. new_lines (splitlines src) = Inr ls \<and> new_lines ls = Inr ls
      \<and> reorder_statespace_dot src = Inr out
      \<and> (reorder_statespace_dot out = Inr out) = (out = [] \<or> last out \<noteq> 10)
      \<and> (out \<noteq> [] \<and> last out = 10) =
          (filter is_closing (splitlines src) = [] \<and> filter is_edge (splitlines src) = []
           \<and> butlast (splitlines src) \<noteq> [] \<and> last (splitlines src) = [])"
proof -
  define M where "M = canon (splitlines src)"
  have nb: "\<forall>l\<in>set M. \<forall>c\<in>set l. \<not> is_linebreak c"
    unfolding M_def by (blast dest: canon_lines_no_break)
  have sp: "splitlines (join_nl M) = (if M \<noteq> [] \<and> last M = [] then butlast M else M)"
    using nb by (rule splitlines_join)
  have e: "(join_nl M \<noteq> [] \<and> last (join_nl M) = 10) \<longleftrightarrow> (butlast M \<noteq> [] \<and> last M = [])"
    using nb by (rule join_ends_newline)
  have idem: "canon M = M" unfolding M_def by (rule canon_idem)
  have "(join_nl (canon (splitlines (join_nl M))) = join_nl M)
          = (join_nl M = [] \<or> last (join_nl M) \<noteq> 10)"
  proof (cases "M \<noteq> [] \<and> last M = []")
    case False
    with sp idem e show ?thesis by auto
  next
    case True
    then have s: "splitlines (join_nl M) = butlast M" using sp by simp
    from True have M: "M = butlast M @ [[]]" by (metis append_butlast_last_id)
    show ?thesis
    proof (cases "butlast M = []")
      case True
      with M have "M = [[]]" by simp
      then show ?thesis by (simp add: canon_def)
    next
      case False
      then have "join_nl M = join_nl (butlast M) @ [10]"
        using M join_nl_snoc [of "butlast M" "[]"] by simp
      then have "length (join_nl M) = Suc (length (join_nl (butlast M)))" by simp
      with length_join_canon [of "butlast M"]
      have "join_nl (canon (butlast M)) \<noteq> join_nl M" by auto
      with s e False True show ?thesis by simp
    qed
  qed
  moreover have "(join_nl M \<noteq> [] \<and> last (join_nl M) = 10) =
          (filter is_closing (splitlines src) = [] \<and> filter is_edge (splitlines src) = []
           \<and> butlast (splitlines src) \<noteq> [] \<and> last (splitlines src) = [])"
    using e canon_ends_empty [of "splitlines src"] by (simp only: M_def)
  ultimately show ?thesis
    using idem by (simp add: new_lines_canon reorder_canon flip: M_def)
qed

theorem reorder_idempotent_iff_witness:
  "\<exists>ls out. new_lines (splitlines sample_dot) = Inr ls \<and> new_lines ls = Inr ls
      \<and> reorder_statespace_dot sample_dot = Inr out
      \<and> (reorder_statespace_dot out = Inr out) = (out = [] \<or> last out \<noteq> 10)
      \<and> (out \<noteq> [] \<and> last out = 10) =
          (filter is_closing (splitlines sample_dot) = [] \<and> filter is_edge (splitlines sample_dot) = []
           \<and> butlast (splitlines sample_dot) \<noteq> [] \<and> last (splitlines sample_dot) = [])"
  by (rule reorder_idempotent_iff)

text \<open>
  C6 as stated fails on a text without closing line whose last line is empty: the output
  ends with a newline, and the second application removes it.
\<close>

theorem reorder_not_idempotent:
  "reorder_statespace_dot (py ''a\<newline>\<newline>'') = Inr (py ''a\<newline>'')
   \<and> reorder_statespace_dot (py ''a\<newline>'') = Inr (py ''a'')
   \<and> reorder_statespace_dot (py ''a\<newline>'') \<noteq> Inr (py ''a\<newline>'')"
proof -
  have l1: "splitlines (py ''a\<newline>\<newline>'') = [py ''a'', []]"
    and l2: "splitlines (py ''a\<newline>'') = [py ''a'']"
    by (simp_all add: py_simps splitlines.simps is_linebreak_def after_break_def)
  have s: "strip (py ''a'') = py ''a''" "strip [] = []"
    by (simp_all add: strip_def py_simps isspace_def)
  have e: "edge_search (py ''a'') = None" "edge_match [] = None"
    by (simp_all add: py_simps edge_match_def lit_def)
  have n1: "new_lines [py ''a'', []] = Inr [py ''a'', []]"
    and n2: "new_lines [py ''a''] = Inr [py ''a'']"
    by (simp_all add: new_lines_def classify_def s e sorted_key_def) (simp_all add: py_simps)
  show ?thesis
    by (simp add: reorder_statespace_dot_def l1 l2 n1 n2) (simp add: py_simps)
qed

text \<open>
  C7 (as amended). When the input has closing lines, the last line of the output (of the
  list that is joined, which is also the list of lines of the output text) is the last
  closing line of the input, which is the closing line when there is one only; when the
  input has none, no line of the output is a closing line.
\<close>

theorem reorder_closing_line_last:
  "\<exists>ls out. new_lines (splitlines src) = Inr ls \<and> reorder_statespace_dot src = Inr out \<and>
     (if filter is_closing (splitlines src) \<noteq> []
      then splitlines out = ls \<and> ls \<noteq> [] \<and> last ls = last (filter is_closing (splitlines src))
      else filter is_closing ls = [] \<and> filter is_closing (splitlines out) = [])"
proof (cases "filter is_closing (splitlines src) = []")
  case True
  then have c: "canon (splitlines src)
      = filter (\<lambda>l. \<not> is_closing l \<and> \<not> is_edge l) (splitlines src)
        @ sort_key line_key (filter is_edge (splitlines src))"
    by (rule canon_no_closing)
  have k: "\<forall>l\<in>set (canon (splitlines src)). \<not> is_closing l"
    unfolding c using kept_not_closing by blast
  then have "\<forall>l\<in>set (splitlines (join_nl (canon (splitlines src)))). \<not> is_closing l"
    unfolding splitlines_reorder by (auto dest: in_set_butlastD)
  with k True show ?thesis
    by (simp add: new_lines_canon reorder_canon filter_empty_conv)
next
  case False
  then have c: "canon (splitlines src)
      = (filter (\<lambda>l. \<not> is_closing l \<and> \<not> is_edge l) (splitlines src)
         @ sort_key line_key (filter is_edge (splitlines src)))
        @ [last (filter is_closing (splitlines src))]"
    by (rule canon_closing)
  then have l: "last (canon (splitlines src)) = last (filter is_closing (splitlines src))"
    and n: "canon (splitlines src) \<noteq> []"
    by simp_all
  from False have "last (filter is_closing (splitlines src)) \<noteq> []"
    by (rule last_closing_nonempty)
  with l have "splitlines (join_nl (canon (splitlines src))) = canon (splitlines src)"
    unfolding splitlines_reorder by simp
  with False l n show ?thesis
    by (simp add: new_lines_canon reorder_canon)
qed

theorem reorder_closing_line_last_witness:
  "(\<exists>ls out. new_lines (splitlines sample_dot) = Inr ls
       \<and> reorder_statespace_dot sample_dot = Inr out
       \<and> splitlines out = ls \<and> ls \<noteq> [] \<and> last ls = py ''}'')
   \<and> (\<exists>ls out. new_lines (splitlines (py ''a\<newline>b'')) = Inr ls
       \<and> reorder_statespace_dot (py ''a\<newline>b'') = Inr out
       \<and> filter is_closing ls = [] \<and> filter is_closing (splitlines out) = [])"
proof -
  have l: "splitlines (py ''a\<newline>b'') = [py ''a'', py ''b'']"
    by (simp add: py_simps splitlines.simps is_linebreak_def after_break_def)
  have c: "filter is_closing (splitlines (py ''a\<newline>b'')) = []"
    unfolding l by (simp add: is_closing_def strip_def py_simps isspace_def)
  show ?thesis
    using reorder_closing_line_last [of sample_dot] reorder_closing_line_last [of "py ''a\<newline>b''"]
    by (simp add: closing_sample_dot c)
qed

text \<open>
  C7 as stated fails on an input with two closing lines that differ: the first of them is
  a closing line of the input, but it is not the last line of the output, nor any line of it.
\<close>

theorem closing_line_not_last:
  "is_closing (py ''}'')
   \<and> py ''}'' \<in> set (splitlines (py ''}\<newline>a\<newline> }''))
   \<and> new_lines (splitlines (py ''}\<newline>a\<newline> }'')) = Inr [py ''a'', py '' }'']
   \<and> reorder_statespace_dot (py ''}\<newline>a\<newline> }'') = Inr (py ''a\<newline> }'')
   \<and> splitlines (py ''a\<newline> }'') = [py ''a'', py '' }'']
   \<and> last (splitlines (py ''a\<newline> }'')) \<noteq> py ''}''
   \<and> py ''}'' \<notin> set (splitlines (py ''a\<newline> }''))"
proof -
  have l: "splitlines (py ''}\<newline>a\<newline> }'') = [py ''}'', py ''a'', py '' }'']"
    and l2: "splitlines (py ''a\<newline> }'') = [py ''a'', py '' }'']"
    by (simp_all add: py_simps splitlines.simps is_linebreak_def after_break_def)
  have s: "strip (py ''}'') = py ''}''" "strip (py '' }'') = py ''}''" "strip (py ''a'') = py ''a''"
    by (simp_all add: strip_def py_simps isspace_def)
  have e: "edge_search (py ''a'') = None"
    by (simp add: py_simps edge_match_def lit_def)
  have n: "new_lines [py ''}'', py ''a'', py '' }''] = Inr [py ''a'', py '' }'']"
    by (simp add: new_lines_def classify_def s e sorted_key_def) (simp add: py_simps)
  have c: "is_closing (py ''}'')" by (simp add: is_closing_def s)
  show ?thesis
    unfolding l l2 n reorder_statespace_dot_def using c by (simp add: py_simps)
qed

text \<open>
  C9. When two or more lines of the input strip to the closing brace, the output is the
  other lines (none of them a closing line) followed by the last closing line: every
  earlier closing line is gone.
\<close>

theorem reorder_keeps_last_closing_only:
  assumes "2 \<le> length (filter is_closing (splitlines src))"
  shows "\<exists>kept. new_lines (splitlines src) = Inr (kept @ [last (filter is_closing (splitlines src))])
           \<and> reorder_statespace_dot src
               = Inr (join_nl (kept @ [last (filter is_closing (splitlines src))]))
           \<and> filter is_closing kept = []
           \<and> mset kept = mset (filter (\<lambda>l. \<not> is_closing l) (splitlines src))"
proof -
  define ls where "ls = splitlines src"
  define kept where
    "kept = filter (\<lambda>l. \<not> is_closing l \<and> \<not> is_edge l) ls @ sort_key line_key (filter is_edge ls)"
  from assms have ne: "filter is_closing ls \<noteq> []" by (auto simp: ls_def)
  have c: "canon ls = kept @ [last (filter is_closing ls)]"
    unfolding kept_def using ne by (rule canon_closing)
  have k: "filter is_closing kept = []"
    unfolding kept_def filter_empty_conv using kept_not_closing by blast
  have m: "mset kept = mset (filter (\<lambda>l. \<not> is_closing l) ls)"
    unfolding kept_def by (rule mset_kept)
  show ?thesis
    using c k m by (auto simp: new_lines_canon reorder_canon simp flip: ls_def)
qed

theorem reorder_keeps_last_closing_only_witness:
  "2 \<le> length (filter is_closing (splitlines (py ''}\<newline>a\<newline> }'')))
   \<and> (\<exists>kept. new_lines (splitlines (py ''}\<newline>a\<newline> }''))
                 = Inr (kept @ [last (filter is_closing (splitlines (py ''}\<newline>a\<newline> }'')))])
          \<and> reorder_statespace_dot (py ''}\<newline>a\<newline> }'')
                 = Inr (join_nl (kept @ [last (filter is_closing (splitlines (py ''}\<newline>a\<newline> }'')))]))
          \<and> filter is_closing kept = []
          \<and> mset kept = mset (filter (\<lambda>l. \<not> is_closing l) (splitlines (py ''}\<newline>a\<newline> }''))))"
proof -
  have l: "splitlines (py ''}\<newline>a\<newline> }'') = [py ''}'', py ''a'', py '' }'']"
    by (simp add: py_simps splitlines.simps is_linebreak_def after_break_def)
  have "filter is_closing [py ''}'', py ''a'', py '' }''] = [py ''}'', py '' }'']"
    by (simp add: is_closing_def strip_def py_simps isspace_def)
  then have "2 \<le> length (filter is_closing (splitlines (py ''}\<newline>a\<newline> }'')))"
    by (simp add: l)
  then show ?thesis
    using reorder_keeps_last_closing_only [of "py ''}\<newline>a\<newline> }''"] by blast
qed

text \<open>
  C10 (as amended). A line is an edge line exactly when the edge pattern occurs somewhere
  in it; the lines collected for the sorted block are exactly these, and no such line is
  left in front of or behind the block; and the key of such a line is computed from the
  first label of the leftmost occurrence of the pattern.
\<close>

theorem edge_line_classification:
  "(is_edge l \<longleftrightarrow> (\<exists>pre rest g. l = pre @ rest \<and> edge_occurrence g rest))
   \<and> edge_lines (foldl classify \<lparr>edge_lines = [], prefix_lines = [], closing_line = []\<rparr> ls)
       = filter is_edge ls
   \<and> (\<exists>lead trail. new_lines ls = Inr (lead @ sort_key line_key (filter is_edge ls) @ trail)
         \<and> filter is_edge lead = [] \<and> filter is_edge trail = [])
   \<and> (is_edge l \<longrightarrow>
        (\<exists>pre rest g. l = pre @ rest \<and> edge_occurrence g rest
           \<and> (\<forall>pre' rest' g'. l = pre' @ rest' \<and> edge_occurrence g' rest'
                 \<longrightarrow> length pre \<le> length pre')
           \<and> key_for_line l = Inr (hamming_weight g, binary_value g)))"
proof (intro conjI impI)
  show "is_edge l \<longleftrightarrow> (\<exists>pre rest g. l = pre @ rest \<and> edge_occurrence g rest)"
  proof
    assume "is_edge l"
    then obtain g where "edge_search l = Some g" by (auto simp: is_edge_def)
    from edge_search_leftmost [OF this] show "\<exists>pre rest g. l = pre @ rest \<and> edge_occurrence g rest"
      unfolding edge_match_iff by blast
  next
    assume "\<exists>pre rest g. l = pre @ rest \<and> edge_occurrence g rest"
    then obtain pre rest g where "l = pre @ rest" "edge_match rest = Some g"
      unfolding edge_match_iff [symmetric] by blast
    then show "is_edge l"
      unfolding is_edge_def using edge_search_None [of l pre rest] by auto
  qed
next
  show "edge_lines (foldl classify \<lparr>edge_lines = [], prefix_lines = [], closing_line = []\<rparr> ls)
          = filter is_edge ls"
    by (simp add: foldl_classify filter_edge_not_closing)
next
  define lead where "lead = filter (\<lambda>l. \<not> is_closing l \<and> \<not> is_edge l) ls"
  define trail where
    "trail = (if filter is_closing ls = [] then [] else [last (filter is_closing ls)])"
  have "new_lines ls = Inr (lead @ sort_key line_key (filter is_edge ls) @ trail)"
    by (simp add: new_lines_canon canon_def lead_def trail_def)
  moreover have "filter is_edge lead = []"
    by (simp add: lead_def filter_empty_conv)
  moreover have "filter is_edge trail = []"
    using last_closing_is_closing [of ls] by (auto simp: trail_def dest: closing_not_edge)
  ultimately show "\<exists>lead trail.
      new_lines ls = Inr (lead @ sort_key line_key (filter is_edge ls) @ trail)
      \<and> filter is_edge lead = [] \<and> filter is_edge trail = []"
    by blast
next
  assume "is_edge l"
  then obtain g where g: "edge_search l = Some g" by (auto simp: is_edge_def)
  from edge_search_leftmost [OF g] obtain pre rest where
    p: "l = pre @ rest" "edge_match rest = Some g"
    and m: "\<forall>pre' rest'. l = pre' @ rest' \<and> length pre' < length pre \<longrightarrow> edge_match rest' = None"
    by blast
  have "\<forall>pre' rest' g'. l = pre' @ rest' \<and> edge_occurrence g' rest' \<longrightarrow> length pre \<le> length pre'"
    using m unfolding edge_match_iff [symmetric] by (metis not_le option.distinct(1))
  moreover have "key_for_line l = Inr (hamming_weight g, binary_value g)"
    using g by (simp add: key_for_line_total line_key_def)
  ultimately show "\<exists>pre rest g. l = pre @ rest \<and> edge_occurrence g rest
           \<and> (\<forall>pre' rest' g'. l = pre' @ rest' \<and> edge_occurrence g' rest'
                 \<longrightarrow> length pre \<le> length pre')
           \<and> key_for_line l = Inr (hamming_weight g, binary_value g)"
    using p unfolding edge_match_iff by blast
qed

theorem edge_line_classification_witness:
  \<open>is_edge (py ''  label="x" // "0 1" -> "1 1"'')
   \<and> (\<exists>pre rest g. py ''  label="x" // "0 1" -> "1 1"'' = pre @ rest \<and> edge_occurrence g rest
           \<and> (\<forall>pre' rest' g'. py ''  label="x" // "0 1" -> "1 1"'' = pre' @ rest' \<and> edge_occurrence g' rest'
                 \<longrightarrow> length pre \<le> length pre')
           \<and> key_for_line (py ''  label="x" // "0 1" -> "1 1"'') = Inr (hamming_weight g, binary_value g))\<close>
proof -
  have \<open>is_edge (py ''  label="x" // "0 1" -> "1 1"'')\<close>
    by (simp add: is_edge_def ev)
  then show ?thesis
    using edge_line_classification [of \<open>py ''  label="x" // "0 1" -> "1 1"''\<close>] by blast
qed

text \<open>
  C10 as stated fails on a line whose first quoted label is not part of an occurrence of
  the pattern: the key is not that of the first quoted label of the line.
\<close>

theorem key_not_first_quoted_label:
  \<open>first_quoted_label (py ''"1" "0" -> "0"'') = Some (py ''1'')
   \<and> key_for_line (py ''"1" "0" -> "0"'') = Inr (0, 0)
   \<and> (hamming_weight (py ''1''), binary_value (py ''1'')) = (1, 1)\<close>
  by (simp add: ev)

end
